theory Spec2Isabelle
  imports Main "HOL-Library.Sublist"
begin

section \<open>JavaScript strings and the pieces of the standard library the module uses\<close>

text \<open>
  Strings are lists of characters; \<open>+\<close> on strings is \<open>@\<close>.
  \<open>s.includes(t)\<close> (here \<open>string_includes s t\<close>) holds when \<open>t\<close> occurs in \<open>s\<close> as a contiguous run.
\<close>

definition string_includes :: "string \<Rightarrow> string \<Rightarrow> bool" where
  "string_includes s t = sublist t s"

text \<open>
  \<open>String.prototype.trim\<close> removes white space and line terminators from both ends.
  The characters below are the ones with a code below 256: tab, line feed, vertical tab,
  form feed, carriage return, space and the no-break space.
\<close>

definition is_white_space :: "char \<Rightarrow> bool" where
  "is_white_space c = ((of_char c :: nat) \<in> {9, 10, 11, 12, 13, 32, 160})"

definition trim :: "string \<Rightarrow> string" where
  "trim s = rev (dropWhile is_white_space (rev (dropWhile is_white_space s)))"

text \<open>A number inside a template literal is printed in decimal.\<close>

definition digit_char :: "nat \<Rightarrow> char" where
  "digit_char d = char_of (48 + d)"

function show_nat :: "nat \<Rightarrow> string" where
  "show_nat n = (if n < 10 then [digit_char n] else show_nat (n div 10) @ [digit_char (n mod 10)])"
  by pat_completeness auto
termination
  by (relation "measure (\<lambda>n. n)") auto

declare show_nat.simps [simp del]

text \<open>
  \<open>escape-string-regexp\<close>: every regular-expression syntax character gets a backslash in
  front of it, and a hyphen becomes \<open>\x2d\<close>:
  \<^verbatim>\<open>string.replace(/[|\\{}()[\]^$+*?.]/g, '\\$&').replace(/-/g, '\\x2d')\<close>
\<close>

definition backslash :: char where
  "backslash = CHR 0x5C"

definition is_syntax_char :: "char \<Rightarrow> bool" where
  \<open>is_syntax_char c = (c \<in> set ''|{}()[]^$+*?.'' \<or> c = backslash)\<close>

fun escapeRe :: "string \<Rightarrow> string" where
  "escapeRe [] = []"
| "escapeRe (c # cs) =
     (if is_syntax_char c then backslash # c # escapeRe cs
      else if c = CHR ''-'' then backslash # CHR ''x'' # CHR ''2'' # CHR ''d'' # escapeRe cs
      else c # escapeRe cs)"

text \<open>
  Regular expressions. The module builds exactly one pattern, from the output of
  \<open>escapeRe\<close>, so the model covers the patterns that are a sequence of
  \<^item> a character that is not a syntax character, which matches itself,
  \<^item> a backslash followed by a syntax character, which matches that character,
  \<^item> \<open>\xHH\<close> with two hexadecimal digits, which matches the character with that code.
  \<open>regexp_literal\<close> reads such a pattern and gives the text it matches; any other
  pattern is outside the model and yields \<open>None\<close>.
\<close>

definition hex_val :: "char \<Rightarrow> nat option" where
  "hex_val c =
     (let n = (of_char c :: nat) in
      if 48 \<le> n \<and> n \<le> 57 then Some (n - 48)
      else if 97 \<le> n \<and> n \<le> 102 then Some (n - 87)
      else if 65 \<le> n \<and> n \<le> 70 then Some (n - 55)
      else None)"

fun regexp_literal :: "string \<Rightarrow> string option" where
  "regexp_literal [] = Some []"
| "regexp_literal (c # cs) =
     (if c = backslash then
        (case cs of
           [] \<Rightarrow> None
         | d # ds \<Rightarrow>
             if is_syntax_char d then map_option ((#) d) (regexp_literal ds)
             else if d = CHR ''x'' then
               (case ds of
                  h1 # h2 # rest \<Rightarrow>
                    (case (hex_val h1, hex_val h2) of
                       (Some a, Some b) \<Rightarrow> map_option ((#) (char_of (16 * a + b))) (regexp_literal rest)
                     | _ \<Rightarrow> None)
                | _ \<Rightarrow> None)
             else None)
      else if is_syntax_char c then None
      else map_option ((#) c) (regexp_literal cs))"

datatype js_error = Error (message: string)

datatype regexp = Literal string

definition RegExp :: "string \<Rightarrow> js_error + regexp" where
  "RegExp pattern =
     (case regexp_literal pattern of
        None \<Rightarrow> Inl (Error ''Invalid regular expression'')
      | Some l \<Rightarrow> Inr (Literal l))"

text \<open>\<open>re.test(s)\<close> for a pattern without flags: the pattern matches somewhere in \<open>s\<close>.\<close>

fun regexp_test :: "regexp \<Rightarrow> string \<Rightarrow> bool" where
  "regexp_test (Literal l) s = string_includes s l"

section \<open>Data model\<close>

text \<open>
  A comment as the GitHub API returns it (\<open>CommentData\<close>): the fields the module reads
  are \<open>id\<close>, \<open>body\<close> and \<open>user.type\<close>.
\<close>

record comment =
  comment_id :: nat
  body :: string
  user_type :: string

text \<open>
  \<open>CommentContext\<close>. \<open>ctx_id\<close> is the field \<open>id\<close>, \<open>null\<close> at construction;
  \<open>matches\<close> is the closure stored in the object.
\<close>

record comment_context =
  owner :: string
  repo :: string
  issueNumber :: nat
  ctx_id :: "nat option"
  footer :: string
  footerRe :: regexp
  matches :: "comment \<Rightarrow> bool"
  delayFactor :: nat

text \<open>The inputs of \<open>createCommentContext\<close>: the action context and the workflow run.\<close>

record action_context =
  repo_owner :: string
  repo_repo :: string
  issue_number :: nat

record workflow_run_info =
  workflowRunsHtmlUrl :: string
  workflowName :: string
  jobIndex :: nat

text \<open>
  Everything the module does to the outside is recorded, in order: the logger calls, the
  timed wait and each request to the store with its arguments. A \<open>debug\<close> call passes a
  producer that the logger may never run, so the event carries no payload.
\<close>

datatype event =
    StartGroup string
  | EndGroup
  | Info string
  | Warn string
  | Debug
  | Sleep nat
  | GetComment string string nat
  | ListComments string string nat
  | CreateComment string string nat string
  | UpdateComment string string nat string

text \<open>
  The outside world has a state of an arbitrary type \<open>'w\<close>. \<open>github.issues\<close> is four
  operations on it, each of which either throws or returns its \<open>data\<close>; while the caller
  waits on the timer, the world moves on (other jobs write to the store).
\<close>

record 'w runtime =
  issues_getComment :: "string \<Rightarrow> string \<Rightarrow> nat \<Rightarrow> 'w \<Rightarrow> (js_error + comment) \<times> 'w"
  issues_listComments :: "string \<Rightarrow> string \<Rightarrow> nat \<Rightarrow> 'w \<Rightarrow> (js_error + comment list) \<times> 'w"
  issues_createComment :: "string \<Rightarrow> string \<Rightarrow> nat \<Rightarrow> string \<Rightarrow> 'w \<Rightarrow> (js_error + comment) \<times> 'w"
  issues_updateComment :: "string \<Rightarrow> string \<Rightarrow> nat \<Rightarrow> string \<Rightarrow> 'w \<Rightarrow> (js_error + unit) \<times> 'w"
  timer :: "nat \<Rightarrow> 'w \<Rightarrow> 'w"

record 'w state =
  world :: 'w
  trace :: "event list"

definition log :: "event \<Rightarrow> 'w state \<Rightarrow> 'w state" where
  "log e s = s\<lparr>trace := trace s @ [e]\<rparr>"

text \<open>\<open>sleep(ms)\<close>: resolves after the timer has run.\<close>

definition sleep :: "'w runtime \<Rightarrow> nat \<Rightarrow> 'w state \<Rightarrow> 'w state" where
  "sleep rt ms s = (let s1 = log (Sleep ms) s in s1\<lparr>world := timer rt ms (world s1)\<rparr>)"

section \<open>The module\<close>

text \<open>
  Each function takes the state of the run and returns its result, or the exception it
  throws (\<open>Inl\<close>), together with the new state. \<open>await\<close> on a store operation is the
  application of that operation to the world. The logger is the trace: its calls are
  recorded and do not throw. A comment always has its three fields, so \<open>context.matches\<close>
  is a total predicate, and a response that does not throw carries its \<open>data\<close>.
\<close>

subsection \<open>readComment\<close>

text \<open>
  The loop \<open>for (let i = comments.length; i--; )\<close> visits the listing from its last
  element to its first; \<open>scan_comments\<close> is that loop on the reversed listing.
\<close>

fun scan_comments :: "(comment \<Rightarrow> bool) \<Rightarrow> comment list \<Rightarrow> 'w state \<Rightarrow> comment option \<times> 'w state" where
  "scan_comments m [] s = (None, s)"
| "scan_comments m (c # cs) s =
     (let s1 = log Debug s in
      if m c then
        (Some c, log Debug (log (Info (''Found comment! (id: '' @ show_nat (comment_id c) @ '')'')) s1))
      else scan_comments m cs s1)"

definition readComment_by_id :: "'w runtime \<Rightarrow> comment_context \<Rightarrow> nat \<Rightarrow> 'w state \<Rightarrow> (js_error + comment option) \<times> 'w state" where
  "readComment_by_id rt ctx i s =
     (let s1 = log (Info (''Reading comment '' @ show_nat i @ ''...'')) s;
          s2 = log (GetComment (owner ctx) (repo ctx) i) s1;
          (r, w) = issues_getComment rt (owner ctx) (repo ctx) i (world s2);
          s3 = s2\<lparr>world := w\<rparr>
      in case r of
           Inl e \<Rightarrow> (Inl e, s3)
         | Inr c \<Rightarrow> (Inr (Some c), s3))"

definition readComment_by_listing :: "'w runtime \<Rightarrow> comment_context \<Rightarrow> 'w state \<Rightarrow> (js_error + comment option) \<times> 'w state" where
  "readComment_by_listing rt ctx s =
     (let s1 = log (Info ''Trying to find matching comment...'') s;
          s2 = log (ListComments (owner ctx) (repo ctx) (issueNumber ctx)) s1;
          (r, w) = issues_listComments rt (owner ctx) (repo ctx) (issueNumber ctx) (world s2);
          s3 = s2\<lparr>world := w\<rparr>
      in case r of
           Inl e \<Rightarrow> (Inl e, s3)
         | Inr comments \<Rightarrow>
             (let (found, s4) = scan_comments (matches ctx) (rev comments) s3 in (Inr found, s4)))"

text \<open>
  The body of the \<open>try\<close>. The test \<open>if (context.id)\<close> is a truthiness test: it fails for
  \<open>null\<close> and for the number \<open>0\<close>.
\<close>

definition readComment_try :: "'w runtime \<Rightarrow> comment_context \<Rightarrow> 'w state \<Rightarrow> (js_error + comment option) \<times> 'w state" where
  "readComment_try rt ctx s =
     (case ctx_id ctx of
        None \<Rightarrow> readComment_by_listing rt ctx s
      | Some i \<Rightarrow> if i \<noteq> 0 then readComment_by_id rt ctx i s else readComment_by_listing rt ctx s)"

definition readComment :: "'w runtime \<Rightarrow> comment_context \<Rightarrow> 'w state \<Rightarrow> (js_error + comment option) \<times> 'w state" where
  "readComment rt ctx s =
     (case readComment_try rt ctx s of
        (Inl e, s1) \<Rightarrow>
          (Inr None, log Debug (log (Warn (''Error trying to read comments: '' @ message e)) s1))
      | (Inr c, s1) \<Rightarrow> (Inr c, s1))"

subsection \<open>updateComment and createComment\<close>

definition updateComment :: "'w runtime \<Rightarrow> comment_context \<Rightarrow> string \<Rightarrow> 'w state \<Rightarrow> (js_error + unit) \<times> 'w state" where
  \<open>updateComment rt ctx new_body s =
     (case ctx_id ctx of
        None \<Rightarrow> (Inl (Error ''Cannot update comment if "context.id" is null''), s)
      | Some i \<Rightarrow>
          (let s1 = log (Info (''Updating comment body (id: '' @ show_nat i @ '')...'')) s;
               s2 = log (UpdateComment (owner ctx) (repo ctx) i new_body) s1;
               (r, w) = issues_updateComment rt (owner ctx) (repo ctx) i new_body (world s2);
               s3 = s2\<lparr>world := w\<rparr>
           in case r of
                Inl e \<Rightarrow> (Inl e, s3)
              | Inr u \<Rightarrow> (Inr (), log Debug s3)))\<close>

definition createComment :: "'w runtime \<Rightarrow> comment_context \<Rightarrow> string \<Rightarrow> 'w state \<Rightarrow> (js_error + comment) \<times> 'w state" where
  "createComment rt ctx new_body s =
     (let s1 = log Debug (log (Info ''Creating new comment...'') s);
          s2 = log (CreateComment (owner ctx) (repo ctx) (issueNumber ctx) new_body) s1;
          (r, w) = issues_createComment rt (owner ctx) (repo ctx) (issueNumber ctx) new_body (world s2)
      in (r, s2\<lparr>world := w\<rparr>))"

subsection \<open>initiateCommentLock and acquireCommentLock\<close>

text \<open>
  The body producer (\<open>getInitialBody\<close>, \<open>getCommentBody\<close>) is a function of the comment
  it is given, or of \<open>null\<close>; like any call it may throw. The context object is mutated
  in place, so the functions that assign \<open>context.id\<close> return the context as well.
  An exception leaves the function at once: the assignment after it has not happened.
\<close>

definition initiateCommentLock_create :: "'w runtime \<Rightarrow> comment_context \<Rightarrow> (comment option \<Rightarrow> js_error + string) \<Rightarrow> 'w state \<Rightarrow> (js_error + comment) \<times> 'w state" where
  "initiateCommentLock_create rt ctx getInitialBody s =
     (let s1 = log (Info ''After delay, comment not found. Creating comment...'') s in
      case getInitialBody None of
        Inl e \<Rightarrow> (Inl e, s1)
      | Inr b \<Rightarrow> createComment rt ctx b s1)"

definition initiateCommentLock_retry :: "'w runtime \<Rightarrow> comment_context \<Rightarrow> (comment option \<Rightarrow> js_error + string) \<Rightarrow> 'w state \<Rightarrow> (js_error + comment) \<times> 'w state" where
  "initiateCommentLock_retry rt ctx getInitialBody s =
     (let delay = delayFactor ctx * 100;
          s1 = log (Info (''Comment not found. Waiting '' @ show_nat delay @ ''ms before trying again...'')) s;
          s2 = sleep rt delay s1
      in case readComment rt ctx s2 of
           (Inl e, s3) \<Rightarrow> (Inl e, s3)
         | (Inr None, s3) \<Rightarrow> initiateCommentLock_create rt ctx getInitialBody s3
         | (Inr (Some c), s3) \<Rightarrow> (Inr c, log (Info ''Comment found. Doing nothing.'') s3))"

definition initiateCommentLock :: "'w runtime \<Rightarrow> comment_context \<Rightarrow> (comment option \<Rightarrow> js_error + string) \<Rightarrow> 'w state \<Rightarrow> (js_error + comment) \<times> comment_context \<times> 'w state" where
  "initiateCommentLock rt ctx getInitialBody s =
     (let s1 = log (StartGroup ''Initiating comment lock...'') s;
          (r, s2) =
            (case readComment rt ctx s1 of
               (Inl e, s') \<Rightarrow> (Inl e, s')
             | (Inr None, s') \<Rightarrow> initiateCommentLock_retry rt ctx getInitialBody s'
             | (Inr (Some c), s') \<Rightarrow> (Inr c, log (Info ''Comment found. Doing nothing.'') s'))
      in case r of
           Inl e \<Rightarrow> (Inl e, ctx, s2)
         | Inr c \<Rightarrow> (Inr c, ctx\<lparr>ctx_id := Some (comment_id c)\<rparr>, log EndGroup s2))"

definition acquireCommentLock :: "'w runtime \<Rightarrow> comment_context \<Rightarrow> (comment option \<Rightarrow> js_error + string) \<Rightarrow> 'w state \<Rightarrow> (js_error + comment) \<times> comment_context \<times> 'w state" where
  "acquireCommentLock rt ctx getInitialBody s = initiateCommentLock rt ctx getInitialBody s"

subsection \<open>postOrUpdateComment\<close>

text \<open>
  The local variable \<open>comment\<close> is an object or \<open>null\<close>. The first block runs under
  \<open>if (comment)\<close> and sets the variable to \<open>null\<close> when its \<open>try\<close> fails; the second
  block runs under \<open>if (!comment)\<close>.
\<close>

definition postOrUpdateComment_update_try :: "'w runtime \<Rightarrow> comment_context \<Rightarrow> (comment option \<Rightarrow> js_error + string) \<Rightarrow> comment \<Rightarrow> 'w state \<Rightarrow> (js_error + unit) \<times> 'w state" where
  "postOrUpdateComment_update_try rt ctx getCommentBody c s =
     (case getCommentBody (Some c) of
        Inl e \<Rightarrow> (Inl e, s)
      | Inr b \<Rightarrow>
          (let updatedBody = (if \<not> string_includes b (footer ctx) then b @ footer ctx else b)
           in updateComment rt ctx updatedBody s))"

definition postOrUpdateComment_update :: "'w runtime \<Rightarrow> comment_context \<Rightarrow> (comment option \<Rightarrow> js_error + string) \<Rightarrow> comment option \<Rightarrow> 'w state \<Rightarrow> comment option \<times> comment_context \<times> 'w state" where
  "postOrUpdateComment_update rt ctx getCommentBody comment s =
     (case comment of
        None \<Rightarrow> (None, ctx, s)
      | Some c \<Rightarrow>
          (let ctx1 = ctx\<lparr>ctx_id := Some (comment_id c)\<rparr> in
           case postOrUpdateComment_update_try rt ctx1 getCommentBody c s of
             (Inl e, s1) \<Rightarrow>
               (None, ctx1, log Debug (log (Info (''Error updating comment: '' @ message e)) s1))
           | (Inr u, s1) \<Rightarrow> (Some c, ctx1, s1)))"

definition postOrUpdateComment_create_try :: "'w runtime \<Rightarrow> comment_context \<Rightarrow> (comment option \<Rightarrow> js_error + string) \<Rightarrow> 'w state \<Rightarrow> (js_error + comment) \<times> 'w state" where
  "postOrUpdateComment_create_try rt ctx getCommentBody s =
     (case getCommentBody None of
        Inl e \<Rightarrow> (Inl e, s)
      | Inr b \<Rightarrow> createComment rt ctx (b @ footer ctx) s)"

definition postOrUpdateComment_create :: "'w runtime \<Rightarrow> comment_context \<Rightarrow> (comment option \<Rightarrow> js_error + string) \<Rightarrow> comment option \<Rightarrow> 'w state \<Rightarrow> 'w state" where
  "postOrUpdateComment_create rt ctx getCommentBody comment s =
     (case comment of
        Some c \<Rightarrow> s
      | None \<Rightarrow>
          (case postOrUpdateComment_create_try rt ctx getCommentBody s of
             (Inl e, s1) \<Rightarrow> log Debug (log (Info (''Error creating comment: '' @ message e)) s1)
           | (Inr c, s1) \<Rightarrow> s1))"

definition postOrUpdateComment :: "'w runtime \<Rightarrow> comment_context \<Rightarrow> (comment option \<Rightarrow> js_error + string) \<Rightarrow> 'w state \<Rightarrow> (js_error + unit) \<times> comment_context \<times> 'w state" where
  "postOrUpdateComment rt ctx getCommentBody s =
     (let s1 = log (Info ''Updating PR comment:'') s in
      case acquireCommentLock rt ctx getCommentBody s1 of
        (Inl e, ctx1, s2) \<Rightarrow> (Inl e, ctx1, s2)
      | (Inr c, ctx1, s2) \<Rightarrow>
          (let (comment, ctx2, s3) = postOrUpdateComment_update rt ctx1 getCommentBody (Some c) s2;
               s4 = postOrUpdateComment_create rt ctx2 getCommentBody comment s3
           in (Inr (), ctx2, s4)))"

subsection \<open>createCommentContext\<close>

definition make_footer :: "workflow_run_info \<Rightarrow> string" where
  \<open>make_footer workflowInfo =
     ''\<newline>\<newline><sub><a href="https://github.com/andrewiggins/tachometer-reporter-action" target="_blank">tachometer-reporter-action</a> for <a href="''
       @ workflowRunsHtmlUrl workflowInfo @ ''" target="_blank">'' @ workflowName workflowInfo @ ''</a></sub>''\<close>

definition createCommentContext :: "action_context \<Rightarrow> workflow_run_info \<Rightarrow> js_error + comment_context" where
  "createCommentContext context workflowInfo =
     (let ft = make_footer workflowInfo in
      case RegExp (escapeRe (trim ft)) of
        Inl e \<Rightarrow> Inl e
      | Inr re \<Rightarrow>
          Inr \<lparr>owner = repo_owner context,
               repo = repo_repo context,
               issueNumber = issue_number context,
               ctx_id = None,
               footer = ft,
               footerRe = re,
               matches = (\<lambda>c. user_type c = ''Bot'' \<and> regexp_test re (body c)),
               delayFactor = jobIndex workflowInfo\<rparr>)"

section \<open>Observing a run\<close>

text \<open>
  The events of a run are of two kinds: calls to the logger, and actions on the outside
  world (the timed wait and the requests to the store). \<open>actions\<close> keeps the second
  kind, in order.
\<close>

fun is_log :: "event \<Rightarrow> bool" where
  "is_log (StartGroup n) = True"
| "is_log EndGroup = True"
| "is_log (Info m) = True"
| "is_log (Warn m) = True"
| "is_log Debug = True"
| "is_log (Sleep ms) = False"
| "is_log (GetComment ow r i) = False"
| "is_log (ListComments ow r n) = False"
| "is_log (CreateComment ow r n b) = False"
| "is_log (UpdateComment ow r i b) = False"

definition actions :: "event list \<Rightarrow> event list" where
  "actions evs = filter (\<lambda>e. \<not> is_log e) evs"

text \<open>
  The outcome of one \<open>readComment\<close> started in world \<open>w\<close>: the comment it returns, if
  any, and the world it leaves behind.
\<close>

definition locate :: "'w runtime \<Rightarrow> comment_context \<Rightarrow> 'w \<Rightarrow> comment option \<times> 'w" where
  "locate rt ctx w =
     (case readComment rt ctx \<lparr>world = w, trace = []\<rparr> of
        (Inl e, s) \<Rightarrow> (None, world s)
      | (Inr r, s) \<Rightarrow> (r, world s))"

text \<open>
  The outcome of the second \<open>readComment\<close> of the staggered protocol, when the first
  one started in world \<open>w\<close>: between the two, the timer has run for
  \<open>delayFactor * 100\<close> milliseconds.
\<close>

definition locate_again :: "'w runtime \<Rightarrow> comment_context \<Rightarrow> 'w \<Rightarrow> comment option \<times> 'w" where
  "locate_again rt ctx w = locate rt ctx (timer rt (delayFactor ctx * 100) (snd (locate rt ctx w)))"

text \<open>The request to the store that \<open>readComment\<close> issues for a context.\<close>

definition read_call :: "comment_context \<Rightarrow> event" where
  "read_call ctx =
     (case ctx_id ctx of
        None \<Rightarrow> ListComments (owner ctx) (repo ctx) (issueNumber ctx)
      | Some i \<Rightarrow>
          if i \<noteq> 0 then GetComment (owner ctx) (repo ctx) i
          else ListComments (owner ctx) (repo ctx) (issueNumber ctx))"

text \<open>Kinds of actions: a locate attempt's request, a create request, a timed wait.\<close>

fun is_locate :: "event \<Rightarrow> bool" where
  "is_locate (GetComment ow r i) = True"
| "is_locate (ListComments ow r n) = True"
| "is_locate e = False"

fun is_create :: "event \<Rightarrow> bool" where
  "is_create (CreateComment ow r n b) = True"
| "is_create e = False"

fun is_sleep :: "event \<Rightarrow> bool" where
  "is_sleep (Sleep ms) = True"
| "is_sleep e = False"

section \<open>A store in memory, for concrete runs\<close>

text \<open>
  A small store: the comments of one thread in creation order, the next id to assign, and
  switches that make an operation throw. Comments it creates are authored by a bot.
\<close>

record mem_store =
  stored :: "comment list"
  next_id :: nat
  fail_get :: bool
  fail_list :: bool
  fail_create :: bool
  fail_update :: bool

definition mem_runtime :: "mem_store runtime" where
  "mem_runtime =
     \<lparr>issues_getComment = (\<lambda>ow r i w.
        if fail_get w then (Inl (Error ''get failed''), w)
        else (case find (\<lambda>c. comment_id c = i) (stored w) of
                None \<Rightarrow> (Inl (Error ''Not Found''), w)
              | Some c \<Rightarrow> (Inr c, w))),
      issues_listComments = (\<lambda>ow r n w.
        if fail_list w then (Inl (Error ''list failed''), w) else (Inr (stored w), w)),
      issues_createComment = (\<lambda>ow r n b w.
        if fail_create w then (Inl (Error ''create failed''), w)
        else (let c = \<lparr>comment_id = next_id w, body = b, user_type = ''Bot''\<rparr>
              in (Inr c, w\<lparr>stored := stored w @ [c], next_id := Suc (next_id w)\<rparr>))),
      issues_updateComment = (\<lambda>ow r i b w.
        if fail_update w then (Inl (Error ''update failed''), w)
        else (Inr (), w\<lparr>stored := map (\<lambda>c. if comment_id c = i then c\<lparr>body := b\<rparr> else c) (stored w)\<rparr>)),
      timer = (\<lambda>ms w. w)\<rparr>"

definition mem_empty :: mem_store where
  "mem_empty =
     \<lparr>stored = [], next_id = 1, fail_get = False, fail_list = False,
      fail_create = False, fail_update = False\<rparr>"

definition start :: "'w \<Rightarrow> 'w state" where
  "start w = \<lparr>world = w, trace = []\<rparr>"

text \<open>A context with a short footer, and the footer itself.\<close>

definition short_footer :: string where
  "short_footer = ''\<newline>\<newline><sub>report</sub>''"

definition short_context :: comment_context where
  "short_context =
     \<lparr>owner = ''octo'', repo = ''bench'', issueNumber = 7, ctx_id = None,
      footer = short_footer, footerRe = Literal (trim short_footer),
      matches = (\<lambda>c. user_type c = ''Bot'' \<and> regexp_test (Literal (trim short_footer)) (body c)),
      delayFactor = 3\<rparr>"

text \<open>
  A thread with four comments, oldest first: two reports of the action, a person quoting
  the footer, and a comment by another bot.
\<close>

definition human_note :: comment where
  "human_note = \<lparr>comment_id = 11, body = ''see <sub>report</sub> above'', user_type = ''User''\<rparr>"

definition old_report :: comment where
  "old_report = \<lparr>comment_id = 12, body = ''run 1<sub>report</sub>'', user_type = ''Bot''\<rparr>"

definition new_report :: comment where
  "new_report = \<lparr>comment_id = 13, body = ''run 2<sub>report</sub>'', user_type = ''Bot''\<rparr>"

definition other_bot :: comment where
  "other_bot = \<lparr>comment_id = 14, body = ''coverage 93%'', user_type = ''Bot''\<rparr>"

definition mem_thread :: mem_store where
  "mem_thread = mem_empty\<lparr>stored := [old_report, new_report, human_note, other_bot], next_id := 15\<rparr>"



text \<open>
  Inputs for \<open>createCommentContext\<close>, and two comments that carry the footer it builds:
  one written by a person, one by the action.
\<close>

definition example_action :: action_context where
  "example_action = \<lparr>repo_owner = ''octo'', repo_repo = ''bench'', issue_number = 7\<rparr>"

definition example_workflow :: workflow_run_info where
  "example_workflow =
     \<lparr>workflowRunsHtmlUrl = ''https://github.com/octo/bench/actions?query=workflow%3A-CI-'',
      workflowName = ''CI (main)'', jobIndex = 2\<rparr>"

definition quoting_person :: comment where
  "quoting_person =
     \<lparr>comment_id = 21, body = ''what does this mean? '' @ make_footer example_workflow,
      user_type = ''User''\<rparr>"

definition footed_report :: comment where
  "footed_report =
     \<lparr>comment_id = 22, body = ''results'' @ make_footer example_workflow @ ''\<newline>'',
      user_type = ''Bot''\<rparr>"

section \<open>Strings: occurrences, trimming, escaped patterns\<close>

lemma string_includes_iff: "string_includes s t = (\<exists>p q. s = p @ t @ q)"
  by (simp add: string_includes_def sublist_def)

lemma trim_decomp: "\<exists>p q. s = p @ trim s @ q"
proof -
  let ?a = "dropWhile is_white_space s"
  have 1: "s = takeWhile is_white_space s @ ?a" by simp
  have 2: "rev ?a = takeWhile is_white_space (rev ?a) @ dropWhile is_white_space (rev ?a)" by simp
  have "?a = rev (dropWhile is_white_space (rev ?a)) @ rev (takeWhile is_white_space (rev ?a))"
    by (metis 2 rev_append rev_rev_ident)
  then have "s = takeWhile is_white_space s @ trim s @ rev (takeWhile is_white_space (rev ?a))"
    unfolding trim_def using 1 by (metis)
  then show ?thesis by blast
qed

lemma hex_2d: "hex_val CHR ''2'' = Some 2" "hex_val CHR ''d'' = Some 13"
  by (simp_all add: hex_val_def)

lemma x_not_syntax: "\<not> is_syntax_char CHR ''x''"
  by (simp add: is_syntax_char_def backslash_def)

lemma backslash_syntax: "is_syntax_char backslash"
  by (simp add: is_syntax_char_def)

lemma hyphen_not_backslash: "CHR ''-'' \<noteq> backslash"
  by (simp add: backslash_def)

lemma regexp_literal_escapeRe: "regexp_literal (escapeRe s) = Some s"
proof (induction s)
  case Nil
  show ?case by simp
next
  case (Cons c cs)
  show ?case
  proof (cases "is_syntax_char c")
    case True
    then show ?thesis using Cons by simp
  next
    case False
    note nsc = this
    show ?thesis
    proof (cases "c = CHR ''-''")
      case True
      have "char_of (16 * 2 + 13 :: nat) = CHR ''-''" by code_simp
      then show ?thesis using True nsc Cons
        by (simp add: hex_2d x_not_syntax)
    next
      case False
      have "c \<noteq> backslash" using nsc backslash_syntax by auto
      then show ?thesis using False nsc Cons by simp
    qed
  qed
qed

lemma RegExp_escapeRe: "RegExp (escapeRe s) = Inr (Literal s)"
  by (simp add: RegExp_def regexp_literal_escapeRe)


section \<open>Runs of readComment\<close>

lemma actions_append: "actions (xs @ ys) = actions xs @ actions ys"
  by (simp add: actions_def)

lemma actions_simps:
  "actions [] = []"
  "actions (e # evs) = (if is_log e then actions evs else e # actions evs)"
  by (simp_all add: actions_def)

lemma set_actions_subset: "e \<in> set (actions evs) \<Longrightarrow> e \<in> set evs"
  by (simp add: actions_def)

lemma trace_log: "trace (log e s) = trace s @ [e]"
  by (simp add: log_def)

lemma world_log: "world (log e s) = world s"
  by (simp add: log_def)

lemma scan_comments_fst: "fst (scan_comments m cs s) = find m cs"
  by (induction cs arbitrary: s) (simp_all add: Let_def)

lemma scan_comments_world: "world (snd (scan_comments m cs s)) = world s"
  by (induction cs arbitrary: s) (simp_all add: Let_def world_log)

lemma scan_comments_trace:
  "\<exists>evs. trace (snd (scan_comments m cs s)) = trace s @ evs \<and> actions evs = []"
proof (induction cs arbitrary: s)
  case Nil
  show ?case by (simp add: actions_simps)
next
  case (Cons c cs)
  show ?case
  proof (cases "m c")
    case True
    then show ?thesis by (simp add: Let_def trace_log actions_simps)
  next
    case False
    obtain evs where "trace (snd (scan_comments m cs (log Debug s))) = trace (log Debug s) @ evs"
      and "actions evs = []"
      using Cons.IH[of "log Debug s"] by blast
    then have "trace (snd (scan_comments m (c # cs) s)) = trace s @ (Debug # evs) \<and> actions (Debug # evs) = []"
      using False by (simp add: Let_def trace_log actions_simps)
    then show ?thesis by blast
  qed
qed

lemma readComment_try_fst:
  "fst (readComment_try rt ctx s) =
     (case ctx_id ctx of
        None \<Rightarrow> map_sum id (\<lambda>cs. find (matches ctx) (rev cs))
                  (fst (issues_listComments rt (owner ctx) (repo ctx) (issueNumber ctx) (world s)))
      | Some i \<Rightarrow>
          if i \<noteq> 0 then map_sum id Some (fst (issues_getComment rt (owner ctx) (repo ctx) i (world s)))
          else map_sum id (\<lambda>cs. find (matches ctx) (rev cs))
                  (fst (issues_listComments rt (owner ctx) (repo ctx) (issueNumber ctx) (world s))))"
  by (simp add: readComment_try_def readComment_by_id_def readComment_by_listing_def Let_def
        case_prod_unfold world_log scan_comments_fst split: option.splits sum.splits)

lemma readComment_try_world:
  "world (snd (readComment_try rt ctx s)) =
     (case ctx_id ctx of
        None \<Rightarrow> snd (issues_listComments rt (owner ctx) (repo ctx) (issueNumber ctx) (world s))
      | Some i \<Rightarrow>
          if i \<noteq> 0 then snd (issues_getComment rt (owner ctx) (repo ctx) i (world s))
          else snd (issues_listComments rt (owner ctx) (repo ctx) (issueNumber ctx) (world s)))"
  by (simp add: readComment_try_def readComment_by_id_def readComment_by_listing_def Let_def
        case_prod_unfold world_log scan_comments_world split: option.splits sum.splits)


lemma readComment_try_trace:
  "\<exists>msg evs. trace (snd (readComment_try rt ctx s)) = trace s @ Info msg # read_call ctx # evs
      \<and> actions evs = []
      \<and> ((\<exists>e. fst (readComment_try rt ctx s) = Inl e) \<longrightarrow> evs = [])"
proof -
  have byid: ?thesis if c: "ctx_id ctx = Some i" "i \<noteq> 0" for i
    using c
    by (cases "fst (issues_getComment rt (owner ctx) (repo ctx) i (world s))")
       (simp_all add: readComment_try_def readComment_by_id_def read_call_def Let_def
          case_prod_unfold trace_log world_log actions_simps)
  have bylist: ?thesis if c: "ctx_id ctx = None \<or> ctx_id ctx = Some 0"
  proof (cases "fst (issues_listComments rt (owner ctx) (repo ctx) (issueNumber ctx) (world s))")
    case (Inl e)
    then show ?thesis using c
      by (auto simp add: readComment_try_def readComment_by_listing_def read_call_def Let_def
          case_prod_unfold trace_log world_log actions_simps)
  next
    case (Inr cs)
    let ?s3 = "(log (ListComments (owner ctx) (repo ctx) (issueNumber ctx))
                 (log (Info ''Trying to find matching comment...'') s))
               \<lparr>world := snd (issues_listComments rt (owner ctx) (repo ctx) (issueNumber ctx) (world s))\<rparr>"
    obtain evs where e: "trace (snd (scan_comments (matches ctx) (rev cs) ?s3)) = trace ?s3 @ evs"
      and a: "actions evs = []"
      using scan_comments_trace[of "matches ctx" "rev cs" ?s3] by blast
    have r: "readComment_try rt ctx s = (Inr (find (matches ctx) (rev cs)), snd (scan_comments (matches ctx) (rev cs) ?s3))"
      using c Inr
      by (auto simp add: readComment_try_def readComment_by_listing_def Let_def
          case_prod_unfold world_log scan_comments_fst)
    have rc: "read_call ctx = ListComments (owner ctx) (repo ctx) (issueNumber ctx)"
      using c by (auto simp: read_call_def)
    show ?thesis
      using e a by (simp add: r rc trace_log)
  qed
  show ?thesis using byid bylist by (cases "ctx_id ctx") auto
qed

lemma readComment_fst:
  "fst (readComment rt ctx s) =
     Inr (case fst (readComment_try rt ctx s) of Inl e \<Rightarrow> None | Inr r \<Rightarrow> r)"
  by (simp add: readComment_def case_prod_unfold split: sum.splits)

lemma readComment_world:
  "world (snd (readComment rt ctx s)) = world (snd (readComment_try rt ctx s))"
  by (simp add: readComment_def case_prod_unfold world_log split: sum.splits)

lemma readComment_try_world_only:
  assumes "world s = world t"
  shows "fst (readComment_try rt ctx s) = fst (readComment_try rt ctx t)"
    and "world (snd (readComment_try rt ctx s)) = world (snd (readComment_try rt ctx t))"
  by (simp_all only: readComment_try_fst readComment_try_world assms)

lemma readComment_locate:
  "fst (readComment rt ctx s) = Inr (fst (locate rt ctx (world s)))"
  "world (snd (readComment rt ctx s)) = snd (locate rt ctx (world s))"
proof -
  let ?z = "\<lparr>world = world s, trace = []\<rparr>"
  have w: "world s = world ?z" by simp
  have f: "fst (readComment rt ctx ?z) = fst (readComment rt ctx s)"
    using readComment_try_world_only(1)[OF w, of rt ctx] by (simp add: readComment_fst)
  have g: "world (snd (readComment rt ctx ?z)) = world (snd (readComment rt ctx s))"
    using readComment_try_world_only(2)[OF w, of rt ctx] by (simp add: readComment_world)
  obtain r where r: "fst (readComment rt ctx s) = Inr r"
    by (simp add: readComment_fst)
  show "fst (readComment rt ctx s) = Inr (fst (locate rt ctx (world s)))"
    using f r by (simp add: locate_def case_prod_unfold)
  show "world (snd (readComment rt ctx s)) = snd (locate rt ctx (world s))"
    using f g r by (simp add: locate_def case_prod_unfold)
qed

lemma readComment_trace:
  "\<exists>msg evs. trace (snd (readComment rt ctx s)) = trace s @ Info msg # read_call ctx # evs
      \<and> actions evs = []
      \<and> (\<forall>e. fst (readComment_try rt ctx s) = Inl e \<longrightarrow>
            evs = [Warn (''Error trying to read comments: '' @ message e), Debug])"
proof -
  obtain msg evs where t: "trace (snd (readComment_try rt ctx s)) = trace s @ Info msg # read_call ctx # evs"
    and a: "actions evs = []"
    and n: "(\<exists>e. fst (readComment_try rt ctx s) = Inl e) \<longrightarrow> evs = []"
    using readComment_try_trace[of rt ctx s] by blast
  show ?thesis
  proof (cases "fst (readComment_try rt ctx s)")
    case (Inl e)
    then have "evs = []" using n by blast
    then have "trace (snd (readComment rt ctx s)) =
        trace s @ Info msg # read_call ctx # [Warn (''Error trying to read comments: '' @ message e), Debug]"
      using Inl t by (simp add: readComment_def case_prod_unfold trace_log)
    then show ?thesis using Inl by (auto simp: actions_simps)
  next
    case (Inr r)
    then have "trace (snd (readComment rt ctx s)) = trace s @ Info msg # read_call ctx # evs"
      using t by (simp add: readComment_def case_prod_unfold)
    then show ?thesis using Inr a by auto
  qed
qed

lemma readComment_run:
  obtains s1 msg evs where
    "readComment rt ctx s = (Inr (fst (locate rt ctx (world s))), s1)"
    "world s1 = snd (locate rt ctx (world s))"
    "trace s1 = trace s @ Info msg # read_call ctx # evs"
    "actions evs = []"
proof -
  obtain msg evs where t: "trace (snd (readComment rt ctx s)) = trace s @ Info msg # read_call ctx # evs"
    and a: "actions evs = []"
    using readComment_trace[of rt ctx s] by blast
  have "readComment rt ctx s = (Inr (fst (locate rt ctx (world s))), snd (readComment rt ctx s))"
    using readComment_locate(1)[of rt ctx s] by (metis prod.collapse)
  then show ?thesis using that t a readComment_locate(2)[of rt ctx s] by blast
qed

lemma createComment_run:
  obtains s1 where
    "createComment rt ctx b s =
       (fst (issues_createComment rt (owner ctx) (repo ctx) (issueNumber ctx) b (world s)), s1)"
    "world s1 = snd (issues_createComment rt (owner ctx) (repo ctx) (issueNumber ctx) b (world s))"
    "trace s1 = trace s @ [Info ''Creating new comment...'', Debug,
                           CreateComment (owner ctx) (repo ctx) (issueNumber ctx) b]"
  by (rule that[of "snd (createComment rt ctx b s)"])
     (simp_all add: createComment_def Let_def case_prod_unfold trace_log world_log)

section \<open>Runs of the staggered creation protocol\<close>

lemma sleep_world: "world (sleep rt ms s) = timer rt ms (world s)"
  by (simp add: sleep_def Let_def world_log)

lemma sleep_trace: "trace (sleep rt ms s) = trace s @ [Sleep ms]"
  by (simp add: sleep_def Let_def trace_log)

lemma initiateCommentLock_found_first:
  assumes "fst (locate rt ctx (world s)) = Some c"
  obtains s' evs where
    "initiateCommentLock rt ctx gib s = (Inr c, ctx\<lparr>ctx_id := Some (comment_id c)\<rparr>, s')"
    "world s' = snd (locate rt ctx (world s))"
    "trace s' = trace s @ evs"
    "actions evs = [read_call ctx]"
proof -
  let ?s0 = "log (StartGroup ''Initiating comment lock...'') s"
  obtain s1 msg evs where
    r: "readComment rt ctx ?s0 = (Inr (fst (locate rt ctx (world ?s0))), s1)"
    and w: "world s1 = snd (locate rt ctx (world ?s0))"
    and t: "trace s1 = trace ?s0 @ Info msg # read_call ctx # evs"
    and a: "actions evs = []"
    by (rule readComment_run)
  let ?s' = "log EndGroup (log (Info ''Comment found. Doing nothing.'') s1)"
  have "initiateCommentLock rt ctx gib s = (Inr c, ctx\<lparr>ctx_id := Some (comment_id c)\<rparr>, ?s')"
    using r assms by (simp add: initiateCommentLock_def Let_def world_log)
  moreover have "world ?s' = snd (locate rt ctx (world s))"
    using w by (simp add: world_log)
  moreover have "trace ?s' = trace s @ (StartGroup ''Initiating comment lock...'' # Info msg # read_call ctx # evs
      @ [Info ''Comment found. Doing nothing.'', EndGroup])"
    using t by (simp add: trace_log)
  moreover have "actions (StartGroup ''Initiating comment lock...'' # Info msg # read_call ctx # evs
      @ [Info ''Comment found. Doing nothing.'', EndGroup]) = [read_call ctx]"
    using a by (simp add: actions_simps actions_append read_call_def split: option.splits)
  ultimately show ?thesis using that by blast
qed


lemma initiateCommentLock_retry_found:
  assumes "fst (locate rt ctx (timer rt (delayFactor ctx * 100) (world s))) = Some c"
  obtains s' evs where
    "initiateCommentLock_retry rt ctx gib s = (Inr c, s')"
    "world s' = snd (locate rt ctx (timer rt (delayFactor ctx * 100) (world s)))"
    "trace s' = trace s @ evs"
    "actions evs = [Sleep (delayFactor ctx * 100), read_call ctx]"
proof -
  let ?d = "delayFactor ctx * 100"
  let ?m = "Info (''Comment not found. Waiting '' @ show_nat ?d @ ''ms before trying again...'')"
  let ?s2 = "sleep rt ?d (log ?m s)"
  obtain s3 msg evs where
    r: "readComment rt ctx ?s2 = (Inr (fst (locate rt ctx (world ?s2))), s3)"
    and w: "world s3 = snd (locate rt ctx (world ?s2))"
    and t: "trace s3 = trace ?s2 @ Info msg # read_call ctx # evs"
    and a: "actions evs = []"
    by (rule readComment_run)
  have ws: "world ?s2 = timer rt ?d (world s)"
    by (simp add: sleep_world world_log)
  let ?s' = "log (Info ''Comment found. Doing nothing.'') s3"
  let ?evs = "?m # Sleep ?d # Info msg # read_call ctx # evs @ [Info ''Comment found. Doing nothing.'']"
  have "initiateCommentLock_retry rt ctx gib s = (Inr c, ?s')"
    using r assms ws by (simp add: initiateCommentLock_retry_def Let_def)
  moreover have "world ?s' = snd (locate rt ctx (timer rt ?d (world s)))"
    using w ws by (simp add: world_log)
  moreover have "trace ?s' = trace s @ ?evs"
    using t by (simp add: trace_log sleep_trace)
  moreover have "actions ?evs = [Sleep ?d, read_call ctx]"
    using a by (simp add: actions_simps actions_append read_call_def split: option.splits)
  ultimately show ?thesis using that by blast
qed

lemma initiateCommentLock_retry_absent:
  assumes "fst (locate rt ctx (timer rt (delayFactor ctx * 100) (world s))) = None"
  obtains s3 evs where
    "initiateCommentLock_retry rt ctx gib s = initiateCommentLock_create rt ctx gib s3"
    "world s3 = snd (locate rt ctx (timer rt (delayFactor ctx * 100) (world s)))"
    "trace s3 = trace s @ evs"
    "actions evs = [Sleep (delayFactor ctx * 100), read_call ctx]"
proof -
  let ?d = "delayFactor ctx * 100"
  let ?m = "Info (''Comment not found. Waiting '' @ show_nat ?d @ ''ms before trying again...'')"
  let ?s2 = "sleep rt ?d (log ?m s)"
  obtain s3 msg evs where
    r: "readComment rt ctx ?s2 = (Inr (fst (locate rt ctx (world ?s2))), s3)"
    and w: "world s3 = snd (locate rt ctx (world ?s2))"
    and t: "trace s3 = trace ?s2 @ Info msg # read_call ctx # evs"
    and a: "actions evs = []"
    by (rule readComment_run)
  have ws: "world ?s2 = timer rt ?d (world s)"
    by (simp add: sleep_world world_log)
  let ?evs = "?m # Sleep ?d # Info msg # read_call ctx # evs"
  have "initiateCommentLock_retry rt ctx gib s = initiateCommentLock_create rt ctx gib s3"
    using r assms ws by (simp add: initiateCommentLock_retry_def Let_def)
  moreover have "world s3 = snd (locate rt ctx (timer rt ?d (world s)))"
    using w ws by simp
  moreover have "trace s3 = trace s @ ?evs"
    using t by (simp add: trace_log sleep_trace)
  moreover have "actions ?evs = [Sleep ?d, read_call ctx]"
    using a by (simp add: actions_simps read_call_def split: option.splits)
  ultimately show ?thesis using that by blast
qed

lemma initiateCommentLock_create_throws:
  assumes "gib None = Inl e"
  obtains s' evs where
    "initiateCommentLock_create rt ctx gib s = (Inl e, s')"
    "world s' = world s"
    "trace s' = trace s @ evs"
    "actions evs = []"
  using assms
  by (intro that[of "log (Info ''After delay, comment not found. Creating comment...'') s"
        "[Info ''After delay, comment not found. Creating comment...'']"])
     (simp_all add: initiateCommentLock_create_def Let_def world_log trace_log actions_simps)

lemma initiateCommentLock_create_calls:
  assumes "gib None = Inr b"
  obtains s' evs where
    "initiateCommentLock_create rt ctx gib s =
       (fst (issues_createComment rt (owner ctx) (repo ctx) (issueNumber ctx) b (world s)), s')"
    "world s' = snd (issues_createComment rt (owner ctx) (repo ctx) (issueNumber ctx) b (world s))"
    "trace s' = trace s @ evs"
    "actions evs = [CreateComment (owner ctx) (repo ctx) (issueNumber ctx) b]"
proof -
  let ?s1 = "log (Info ''After delay, comment not found. Creating comment...'') s"
  obtain s' where
    c: "createComment rt ctx b ?s1 =
       (fst (issues_createComment rt (owner ctx) (repo ctx) (issueNumber ctx) b (world ?s1)), s')"
    and w: "world s' = snd (issues_createComment rt (owner ctx) (repo ctx) (issueNumber ctx) b (world ?s1))"
    and t: "trace s' = trace ?s1 @ [Info ''Creating new comment...'', Debug,
                           CreateComment (owner ctx) (repo ctx) (issueNumber ctx) b]"
    by (rule createComment_run)
  let ?evs = "[Info ''After delay, comment not found. Creating comment...'',
               Info ''Creating new comment...'', Debug,
               CreateComment (owner ctx) (repo ctx) (issueNumber ctx) b]"
  have "initiateCommentLock_create rt ctx gib s =
       (fst (issues_createComment rt (owner ctx) (repo ctx) (issueNumber ctx) b (world s)), s')"
    using c assms by (simp add: initiateCommentLock_create_def Let_def world_log)
  moreover have "world s' = snd (issues_createComment rt (owner ctx) (repo ctx) (issueNumber ctx) b (world s))"
    using w by (simp add: world_log)
  moreover have "trace s' = trace s @ ?evs"
    using t by (simp add: trace_log)
  moreover have "actions ?evs = [CreateComment (owner ctx) (repo ctx) (issueNumber ctx) b]"
    by (simp add: actions_simps)
  ultimately show ?thesis using that by blast
qed

lemma initiateCommentLock_absent_first:
  assumes "fst (locate rt ctx (world s)) = None"
  obtains s1 evs where
    "initiateCommentLock rt ctx gib s =
       (case initiateCommentLock_retry rt ctx gib s1 of
          (Inl e, s2) \<Rightarrow> (Inl e, ctx, s2)
        | (Inr c, s2) \<Rightarrow> (Inr c, ctx\<lparr>ctx_id := Some (comment_id c)\<rparr>, log EndGroup s2))"
    "world s1 = snd (locate rt ctx (world s))"
    "trace s1 = trace s @ evs"
    "actions evs = [read_call ctx]"
proof -
  let ?s0 = "log (StartGroup ''Initiating comment lock...'') s"
  obtain s1 msg evs where
    r: "readComment rt ctx ?s0 = (Inr (fst (locate rt ctx (world ?s0))), s1)"
    and w: "world s1 = snd (locate rt ctx (world ?s0))"
    and t: "trace s1 = trace ?s0 @ Info msg # read_call ctx # evs"
    and a: "actions evs = []"
    by (rule readComment_run)
  let ?evs = "StartGroup ''Initiating comment lock...'' # Info msg # read_call ctx # evs"
  have "initiateCommentLock rt ctx gib s =
       (case initiateCommentLock_retry rt ctx gib s1 of
          (Inl e, s2) \<Rightarrow> (Inl e, ctx, s2)
        | (Inr c, s2) \<Rightarrow> (Inr c, ctx\<lparr>ctx_id := Some (comment_id c)\<rparr>, log EndGroup s2))"
    using r assms
    by (simp add: initiateCommentLock_def Let_def world_log split: prod.splits sum.splits)
  moreover have "world s1 = snd (locate rt ctx (world s))"
    using w by (simp add: world_log)
  moreover have "trace s1 = trace s @ ?evs"
    using t by (simp add: trace_log)
  moreover have "actions ?evs = [read_call ctx]"
    using a by (simp add: actions_simps read_call_def split: option.splits)
  ultimately show ?thesis using that by blast
qed


lemma initiateCommentLock_found_second:
  assumes "fst (locate rt ctx (world s)) = None"
    and "fst (locate_again rt ctx (world s)) = Some c"
  obtains s' evs where
    "initiateCommentLock rt ctx gib s = (Inr c, ctx\<lparr>ctx_id := Some (comment_id c)\<rparr>, s')"
    "world s' = snd (locate_again rt ctx (world s))"
    "trace s' = trace s @ evs"
    "actions evs = [read_call ctx, Sleep (delayFactor ctx * 100), read_call ctx]"
proof -
  obtain s1 evs1 where
    l: "initiateCommentLock rt ctx gib s =
       (case initiateCommentLock_retry rt ctx gib s1 of
          (Inl e, s2) \<Rightarrow> (Inl e, ctx, s2)
        | (Inr c, s2) \<Rightarrow> (Inr c, ctx\<lparr>ctx_id := Some (comment_id c)\<rparr>, log EndGroup s2))"
    and w1: "world s1 = snd (locate rt ctx (world s))"
    and t1: "trace s1 = trace s @ evs1"
    and a1: "actions evs1 = [read_call ctx]"
    using initiateCommentLock_absent_first[OF assms(1)] by blast
  have f2: "fst (locate rt ctx (timer rt (delayFactor ctx * 100) (world s1))) = Some c"
    using assms(2) w1 by (simp add: locate_again_def)
  obtain s2 evs2 where
    r: "initiateCommentLock_retry rt ctx gib s1 = (Inr c, s2)"
    and w2: "world s2 = snd (locate rt ctx (timer rt (delayFactor ctx * 100) (world s1)))"
    and t2: "trace s2 = trace s1 @ evs2"
    and a2: "actions evs2 = [Sleep (delayFactor ctx * 100), read_call ctx]"
    using initiateCommentLock_retry_found[OF f2] by blast
  let ?s' = "log EndGroup s2"
  have "initiateCommentLock rt ctx gib s = (Inr c, ctx\<lparr>ctx_id := Some (comment_id c)\<rparr>, ?s')"
    using l r by simp
  moreover have "world ?s' = snd (locate_again rt ctx (world s))"
    using w2 w1 by (simp add: world_log locate_again_def)
  moreover have "trace ?s' = trace s @ (evs1 @ evs2 @ [EndGroup])"
    using t1 t2 by (simp add: trace_log)
  moreover have "actions (evs1 @ evs2 @ [EndGroup]) = [read_call ctx, Sleep (delayFactor ctx * 100), read_call ctx]"
    using a1 a2 by (simp add: actions_append actions_simps)
  ultimately show ?thesis using that by blast
qed

lemma initiateCommentLock_producer_throws:
  assumes "fst (locate rt ctx (world s)) = None"
    and "fst (locate_again rt ctx (world s)) = None"
    and "gib None = Inl e"
  obtains s' evs where
    "initiateCommentLock rt ctx gib s = (Inl e, ctx, s')"
    "world s' = snd (locate_again rt ctx (world s))"
    "trace s' = trace s @ evs"
    "actions evs = [read_call ctx, Sleep (delayFactor ctx * 100), read_call ctx]"
proof -
  obtain s1 evs1 where
    l: "initiateCommentLock rt ctx gib s =
       (case initiateCommentLock_retry rt ctx gib s1 of
          (Inl e, s2) \<Rightarrow> (Inl e, ctx, s2)
        | (Inr c, s2) \<Rightarrow> (Inr c, ctx\<lparr>ctx_id := Some (comment_id c)\<rparr>, log EndGroup s2))"
    and w1: "world s1 = snd (locate rt ctx (world s))"
    and t1: "trace s1 = trace s @ evs1"
    and a1: "actions evs1 = [read_call ctx]"
    using initiateCommentLock_absent_first[OF assms(1)] by blast
  have f2: "fst (locate rt ctx (timer rt (delayFactor ctx * 100) (world s1))) = None"
    using assms(2) w1 by (simp add: locate_again_def)
  obtain s2 evs2 where
    r: "initiateCommentLock_retry rt ctx gib s1 = initiateCommentLock_create rt ctx gib s2"
    and w2: "world s2 = snd (locate rt ctx (timer rt (delayFactor ctx * 100) (world s1)))"
    and t2: "trace s2 = trace s1 @ evs2"
    and a2: "actions evs2 = [Sleep (delayFactor ctx * 100), read_call ctx]"
    using initiateCommentLock_retry_absent[OF f2] by blast
  obtain s3 evs3 where
    c: "initiateCommentLock_create rt ctx gib s2 = (Inl e, s3)"
    and w3: "world s3 = world s2"
    and t3: "trace s3 = trace s2 @ evs3"
    and a3: "actions evs3 = []"
    using initiateCommentLock_create_throws[where gib=gib and e=e and rt=rt and ctx=ctx and s=s2] assms(3)
    by blast
  have "initiateCommentLock rt ctx gib s = (Inl e, ctx, s3)"
    using l r c by simp
  moreover have "world s3 = snd (locate_again rt ctx (world s))"
    using w3 w2 w1 by (simp add: locate_again_def)
  moreover have "trace s3 = trace s @ (evs1 @ evs2 @ evs3)"
    using t1 t2 t3 by simp
  moreover have "actions (evs1 @ evs2 @ evs3) = [read_call ctx, Sleep (delayFactor ctx * 100), read_call ctx]"
    using a1 a2 a3 by (simp add: actions_append)
  ultimately show ?thesis using that by blast
qed

lemma initiateCommentLock_creates:
  assumes "fst (locate rt ctx (world s)) = None"
    and "fst (locate_again rt ctx (world s)) = None"
    and "gib None = Inr b"
  obtains s' evs where
    "initiateCommentLock rt ctx gib s =
       (fst (issues_createComment rt (owner ctx) (repo ctx) (issueNumber ctx) b
               (snd (locate_again rt ctx (world s)))),
        (case fst (issues_createComment rt (owner ctx) (repo ctx) (issueNumber ctx) b
               (snd (locate_again rt ctx (world s)))) of
           Inl e \<Rightarrow> ctx
         | Inr c \<Rightarrow> ctx\<lparr>ctx_id := Some (comment_id c)\<rparr>),
        s')"
    "world s' = snd (issues_createComment rt (owner ctx) (repo ctx) (issueNumber ctx) b
               (snd (locate_again rt ctx (world s))))"
    "trace s' = trace s @ evs"
    "actions evs = [read_call ctx, Sleep (delayFactor ctx * 100), read_call ctx,
                    CreateComment (owner ctx) (repo ctx) (issueNumber ctx) b]"
proof -
  obtain s1 evs1 where
    l: "initiateCommentLock rt ctx gib s =
       (case initiateCommentLock_retry rt ctx gib s1 of
          (Inl e, s2) \<Rightarrow> (Inl e, ctx, s2)
        | (Inr c, s2) \<Rightarrow> (Inr c, ctx\<lparr>ctx_id := Some (comment_id c)\<rparr>, log EndGroup s2))"
    and w1: "world s1 = snd (locate rt ctx (world s))"
    and t1: "trace s1 = trace s @ evs1"
    and a1: "actions evs1 = [read_call ctx]"
    using initiateCommentLock_absent_first[OF assms(1)] by blast
  have f2: "fst (locate rt ctx (timer rt (delayFactor ctx * 100) (world s1))) = None"
    using assms(2) w1 by (simp add: locate_again_def)
  obtain s2 evs2 where
    r: "initiateCommentLock_retry rt ctx gib s1 = initiateCommentLock_create rt ctx gib s2"
    and w2: "world s2 = snd (locate rt ctx (timer rt (delayFactor ctx * 100) (world s1)))"
    and t2: "trace s2 = trace s1 @ evs2"
    and a2: "actions evs2 = [Sleep (delayFactor ctx * 100), read_call ctx]"
    using initiateCommentLock_retry_absent[OF f2] by blast
  have w2': "world s2 = snd (locate_again rt ctx (world s))"
    using w2 w1 by (simp add: locate_again_def)
  let ?cr = "issues_createComment rt (owner ctx) (repo ctx) (issueNumber ctx) b
               (snd (locate_again rt ctx (world s)))"
  obtain s3 evs3 where
    c: "initiateCommentLock_create rt ctx gib s2 = (fst ?cr, s3)"
    and w3: "world s3 = snd ?cr"
    and t3: "trace s3 = trace s2 @ evs3"
    and a3: "actions evs3 = [CreateComment (owner ctx) (repo ctx) (issueNumber ctx) b]"
    using initiateCommentLock_create_calls[where gib=gib and b=b and rt=rt and ctx=ctx and s=s2] assms(3) w2'
    by auto
  show ?thesis
  proof (cases "fst ?cr")
    case (Inl e)
    have "initiateCommentLock rt ctx gib s = (fst ?cr, (case fst ?cr of Inl e \<Rightarrow> ctx
         | Inr c \<Rightarrow> ctx\<lparr>ctx_id := Some (comment_id c)\<rparr>), s3)"
      using l r c Inl by simp
    moreover have "trace s3 = trace s @ (evs1 @ evs2 @ evs3)"
      using t1 t2 t3 by simp
    moreover have "actions (evs1 @ evs2 @ evs3) = [read_call ctx, Sleep (delayFactor ctx * 100), read_call ctx,
                    CreateComment (owner ctx) (repo ctx) (issueNumber ctx) b]"
      using a1 a2 a3 by (simp add: actions_append)
    ultimately show ?thesis using that w3 by blast
  next
    case (Inr c')
    have "initiateCommentLock rt ctx gib s = (fst ?cr, (case fst ?cr of Inl e \<Rightarrow> ctx
         | Inr c \<Rightarrow> ctx\<lparr>ctx_id := Some (comment_id c)\<rparr>), log EndGroup s3)"
      using l r c Inr by simp
    moreover have "world (log EndGroup s3) = snd ?cr"
      using w3 by (simp add: world_log)
    moreover have "trace (log EndGroup s3) = trace s @ (evs1 @ evs2 @ evs3 @ [EndGroup])"
      using t1 t2 t3 by (simp add: trace_log)
    moreover have "actions (evs1 @ evs2 @ evs3 @ [EndGroup]) = [read_call ctx, Sleep (delayFactor ctx * 100), read_call ctx,
                    CreateComment (owner ctx) (repo ctx) (issueNumber ctx) b]"
      using a1 a2 a3 by (simp add: actions_append actions_simps)
    ultimately show ?thesis using that by blast
  qed
qed

lemma is_locate_read_call: "is_locate (read_call ctx)" "\<not> is_create (read_call ctx)" "\<not> is_sleep (read_call ctx)"
  by (simp_all add: read_call_def split: option.splits)

lemma filter_actions:
  assumes "\<And>e. P e \<Longrightarrow> \<not> is_log e"
  shows "filter P evs = filter P (actions evs)"
proof -
  have "filter P (actions evs) = filter (\<lambda>e. \<not> is_log e \<and> P e) evs"
    by (simp add: actions_def)
  also have "\<dots> = filter P evs"
    using assms by (metis)
  finally show ?thesis by simp
qed


lemma is_create_not_log: "is_create e \<Longrightarrow> \<not> is_log e"
  by (cases e) simp_all


section \<open>The context that createCommentContext builds\<close>

lemma createCommentContext_result:
  "createCommentContext context workflowInfo =
     Inr \<lparr>owner = repo_owner context,
          repo = repo_repo context,
          issueNumber = issue_number context,
          ctx_id = None,
          footer = make_footer workflowInfo,
          footerRe = Literal (trim (make_footer workflowInfo)),
          matches = (\<lambda>c. user_type c = ''Bot'' \<and>
                          regexp_test (Literal (trim (make_footer workflowInfo))) (body c)),
          delayFactor = jobIndex workflowInfo\<rparr>"
  by (simp add: createCommentContext_def Let_def RegExp_escapeRe)

lemma string_includes_trim:
  "string_includes s t \<Longrightarrow> string_includes s (trim t)"
proof -
  assume "string_includes s t"
  then obtain p q where s: "s = p @ t @ q" by (auto simp: string_includes_iff)
  obtain a b where t: "t = a @ trim t @ b" using trim_decomp[of t] by blast
  have "s = (p @ a) @ trim t @ (b @ q)" using s t by (metis append.assoc)
  then show ?thesis unfolding string_includes_iff by blast
qed

lemma string_includes_append_self: "string_includes (b @ t) t"
  unfolding string_includes_iff by (intro exI[of _ b] exI[of _ "[]"]) simp

section \<open>Create requests of the staggered creation protocol\<close>

lemma initiateCommentLock_create_events:
  assumes run: "initiateCommentLock rt ctx gib s = (res, ctx', s')"
    and tr: "trace s' = trace s @ evs"
  shows "filter is_create evs = [] \<or>
         (\<exists>b. gib None = Inr b \<and>
              filter is_create evs = [CreateComment (owner ctx) (repo ctx) (issueNumber ctx) b])"
proof -
  have none: "filter is_create evs = []"
    if "actions evs = [read_call ctx] \<or>
        actions evs = [read_call ctx, Sleep (delayFactor ctx * 100), read_call ctx]"
    using that filter_actions[of is_create evs, OF is_create_not_log]
    by (auto simp: is_locate_read_call)
  have one: "filter is_create evs = [CreateComment (owner ctx) (repo ctx) (issueNumber ctx) b]"
    if "actions evs = [read_call ctx, Sleep (delayFactor ctx * 100), read_call ctx,
                       CreateComment (owner ctx) (repo ctx) (issueNumber ctx) b]" for b
    using that filter_actions[of is_create evs, OF is_create_not_log]
    by (auto simp: is_locate_read_call)
  show ?thesis
  proof (cases "fst (locate rt ctx (world s))")
    case (Some c)
    obtain s'' evs' where
      "initiateCommentLock rt ctx gib s = (Inr c, ctx\<lparr>ctx_id := Some (comment_id c)\<rparr>, s'')"
      "trace s'' = trace s @ evs'" "actions evs' = [read_call ctx]"
      using initiateCommentLock_found_first[OF Some] by blast
    then have "actions evs = [read_call ctx]" using run tr by simp
    then show ?thesis using none by blast
  next
    case None
    note first = this
    show ?thesis
    proof (cases "fst (locate_again rt ctx (world s))")
      case (Some c)
      obtain s'' evs' where
        "initiateCommentLock rt ctx gib s = (Inr c, ctx\<lparr>ctx_id := Some (comment_id c)\<rparr>, s'')"
        "trace s'' = trace s @ evs'"
        "actions evs' = [read_call ctx, Sleep (delayFactor ctx * 100), read_call ctx]"
        using initiateCommentLock_found_second[OF first Some] by blast
      then have "actions evs = [read_call ctx, Sleep (delayFactor ctx * 100), read_call ctx]"
        using run tr by simp
      then show ?thesis using none by blast
    next
      case None
      note second = this
      show ?thesis
      proof (cases "gib None")
        case (Inl e)
        obtain s'' evs' where
          "initiateCommentLock rt ctx gib s = (Inl e, ctx, s'')"
          "trace s'' = trace s @ evs'"
          "actions evs' = [read_call ctx, Sleep (delayFactor ctx * 100), read_call ctx]"
          using initiateCommentLock_producer_throws[where gib=gib and e=e, OF first second] Inl
          by blast
        then have "actions evs = [read_call ctx, Sleep (delayFactor ctx * 100), read_call ctx]"
          using run tr by simp
        then show ?thesis using none by blast
      next
        case (Inr b)
        obtain s'' evs' where
          "initiateCommentLock rt ctx gib s =
             (fst (issues_createComment rt (owner ctx) (repo ctx) (issueNumber ctx) b
               (snd (locate_again rt ctx (world s)))),
              (case fst (issues_createComment rt (owner ctx) (repo ctx) (issueNumber ctx) b
               (snd (locate_again rt ctx (world s)))) of Inl e \<Rightarrow> ctx
                | Inr c \<Rightarrow> ctx\<lparr>ctx_id := Some (comment_id c)\<rparr>), s'')"
          "trace s'' = trace s @ evs'"
          "actions evs' = [read_call ctx, Sleep (delayFactor ctx * 100), read_call ctx,
                    CreateComment (owner ctx) (repo ctx) (issueNumber ctx) b]"
          using initiateCommentLock_creates[where gib=gib and b=b, OF first second] Inr
          by blast
        then have "actions evs = [read_call ctx, Sleep (delayFactor ctx * 100), read_call ctx,
                    CreateComment (owner ctx) (repo ctx) (issueNumber ctx) b]"
          using run tr by simp
        then show ?thesis using one Inr by blast
      qed
    qed
  qed
qed

section \<open>What happens to the context\<close>

lemma initiateCommentLock_context:
  assumes "initiateCommentLock rt ctx gib s = (res, ctx', s')"
  shows "ctx' = (case res of Inl e \<Rightarrow> ctx | Inr c \<Rightarrow> ctx\<lparr>ctx_id := Some (comment_id c)\<rparr>)"
  using assms
  by (auto simp add: initiateCommentLock_def Let_def split: prod.splits sum.splits)


section \<open>Runs of the orchestrator\<close>

lemma updateComment_run:
  assumes "ctx_id ctx = Some i"
  obtains s1 evs where
    "updateComment rt ctx b s = (fst (issues_updateComment rt (owner ctx) (repo ctx) i b (world s)), s1)"
    "world s1 = snd (issues_updateComment rt (owner ctx) (repo ctx) i b (world s))"
    "trace s1 = trace s @ evs"
    "actions evs = [UpdateComment (owner ctx) (repo ctx) i b]"
proof -
  let ?r = "issues_updateComment rt (owner ctx) (repo ctx) i b (world s)"
  let ?m = "Info (''Updating comment body (id: '' @ show_nat i @ '')...'')"
  let ?u = "UpdateComment (owner ctx) (repo ctx) i b"
  show ?thesis
  proof (cases "fst ?r")
    case (Inl e)
    show ?thesis
      using assms Inl
      by (intro that[of "snd (updateComment rt ctx b s)" "[?m, ?u]"])
         (simp_all add: updateComment_def Let_def case_prod_unfold trace_log world_log actions_simps)
  next
    case (Inr u)
    show ?thesis
      using assms Inr
      by (intro that[of "snd (updateComment rt ctx b s)" "[?m, ?u, Debug]"])
         (simp_all add: updateComment_def Let_def case_prod_unfold trace_log world_log actions_simps)
  qed
qed

lemma postOrUpdateComment_update_run:
  "\<exists>kept s' evs.
     postOrUpdateComment_update rt ctx gcb (Some c) s = (kept, ctx\<lparr>ctx_id := Some (comment_id c)\<rparr>, s') \<and>
     trace s' = trace s @ evs \<and>
     (case gcb (Some c) of
        Inl e \<Rightarrow> kept = None \<and> actions evs = [] \<and> world s' = world s
      | Inr b \<Rightarrow>
          actions evs = [UpdateComment (owner ctx) (repo ctx) (comment_id c)
                           (if string_includes b (footer ctx) then b else b @ footer ctx)] \<and>
          kept = (case fst (issues_updateComment rt (owner ctx) (repo ctx) (comment_id c)
                              (if string_includes b (footer ctx) then b else b @ footer ctx) (world s)) of
                    Inl e \<Rightarrow> None
                  | Inr u \<Rightarrow> Some c) \<and>
          world s' = snd (issues_updateComment rt (owner ctx) (repo ctx) (comment_id c)
                              (if string_includes b (footer ctx) then b else b @ footer ctx) (world s)))"
proof (cases "gcb (Some c)")
  case (Inl e)
  let ?s' = "log Debug (log (Info (''Error updating comment: '' @ message e)) s)"
  have "postOrUpdateComment_update rt ctx gcb (Some c) s = (None, ctx\<lparr>ctx_id := Some (comment_id c)\<rparr>, ?s')"
    using Inl by (simp add: postOrUpdateComment_update_def postOrUpdateComment_update_try_def Let_def)
  moreover have "trace ?s' = trace s @ [Info (''Error updating comment: '' @ message e), Debug]"
    by (simp add: trace_log)
  moreover have "actions [Info (''Error updating comment: '' @ message e), Debug] = []"
    by (simp add: actions_simps)
  moreover have "world ?s' = world s" by (simp add: world_log)
  ultimately show ?thesis using Inl by auto
next
  case (Inr b)
  let ?ctx1 = "ctx\<lparr>ctx_id := Some (comment_id c)\<rparr>"
  let ?ub = "if string_includes b (footer ctx) then b else b @ footer ctx"
  let ?r = "issues_updateComment rt (owner ctx) (repo ctx) (comment_id c) ?ub (world s)"
  have i: "ctx_id ?ctx1 = Some (comment_id c)" by simp
  obtain s1 evs where
    u: "updateComment rt ?ctx1 ?ub s = (fst ?r, s1)"
    and w: "world s1 = snd ?r"
    and t: "trace s1 = trace s @ evs"
    and a: "actions evs = [UpdateComment (owner ctx) (repo ctx) (comment_id c) ?ub]"
    using updateComment_run[OF i, of rt ?ub s] by auto
  have utry: "postOrUpdateComment_update_try rt ?ctx1 gcb c s = (fst ?r, s1)"
    using Inr u
    by (cases "string_includes b (footer ctx)")
       (simp_all add: postOrUpdateComment_update_try_def Let_def)
  show ?thesis
  proof (cases "fst ?r")
    case (Inl e)
    let ?s' = "log Debug (log (Info (''Error updating comment: '' @ message e)) s1)"
    have "postOrUpdateComment_update rt ctx gcb (Some c) s = (None, ?ctx1, ?s')"
      using utry Inl by (simp add: postOrUpdateComment_update_def Let_def)
    moreover have "trace ?s' = trace s @ (evs @ [Info (''Error updating comment: '' @ message e), Debug])"
      using t by (simp add: trace_log)
    moreover have "actions (evs @ [Info (''Error updating comment: '' @ message e), Debug])
        = [UpdateComment (owner ctx) (repo ctx) (comment_id c) ?ub]"
      using a by (simp add: actions_append actions_simps)
    moreover have "world ?s' = snd ?r" using w by (simp add: world_log)
    ultimately show ?thesis using Inr Inl by auto
  next
    case (Inr u)
    have "postOrUpdateComment_update rt ctx gcb (Some c) s = (Some c, ?ctx1, s1)"
      using utry Inr by (simp add: postOrUpdateComment_update_def Let_def)
    then show ?thesis using \<open>gcb (Some c) = Inr b\<close> Inr t a w by auto
  qed
qed

lemma postOrUpdateComment_create_run:
  "\<exists>s' evs.
     postOrUpdateComment_create rt ctx gcb None s = s' \<and>
     trace s' = trace s @ evs \<and>
     (case gcb None of
        Inl e \<Rightarrow> actions evs = [] \<and> world s' = world s
      | Inr b \<Rightarrow>
          actions evs = [CreateComment (owner ctx) (repo ctx) (issueNumber ctx) (b @ footer ctx)] \<and>
          world s' = snd (issues_createComment rt (owner ctx) (repo ctx) (issueNumber ctx)
                            (b @ footer ctx) (world s)))"
proof (cases "gcb None")
  case (Inl e)
  let ?s' = "log Debug (log (Info (''Error creating comment: '' @ message e)) s)"
  have "postOrUpdateComment_create rt ctx gcb None s = ?s'"
    using Inl by (simp add: postOrUpdateComment_create_def postOrUpdateComment_create_try_def)
  moreover have "trace ?s' = trace s @ [Info (''Error creating comment: '' @ message e), Debug]"
    by (simp add: trace_log)
  moreover have "actions [Info (''Error creating comment: '' @ message e), Debug] = []"
    by (simp add: actions_simps)
  moreover have "world ?s' = world s" by (simp add: world_log)
  ultimately show ?thesis using Inl by auto
next
  case (Inr b)
  let ?cr = "issues_createComment rt (owner ctx) (repo ctx) (issueNumber ctx) (b @ footer ctx) (world s)"
  let ?c = "CreateComment (owner ctx) (repo ctx) (issueNumber ctx) (b @ footer ctx)"
  obtain s1 where
    c: "createComment rt ctx (b @ footer ctx) s = (fst ?cr, s1)"
    and w: "world s1 = snd ?cr"
    and t: "trace s1 = trace s @ [Info ''Creating new comment...'', Debug, ?c]"
    by (rule createComment_run)
  have a: "actions [Info ''Creating new comment...'', Debug, ?c] = [?c]"
    by (simp add: actions_simps)
  show ?thesis
  proof (cases "fst ?cr")
    case (Inl e)
    let ?s' = "log Debug (log (Info (''Error creating comment: '' @ message e)) s1)"
    have "postOrUpdateComment_create rt ctx gcb None s = ?s'"
      using \<open>gcb None = Inr b\<close> c Inl
      by (simp add: postOrUpdateComment_create_def postOrUpdateComment_create_try_def)
    moreover have "trace ?s' = trace s @ ([Info ''Creating new comment...'', Debug, ?c]
         @ [Info (''Error creating comment: '' @ message e), Debug])"
      using t by (simp add: trace_log)
    moreover have "actions ([Info ''Creating new comment...'', Debug, ?c]
         @ [Info (''Error creating comment: '' @ message e), Debug]) = [?c]"
      by (simp add: actions_simps)
    moreover have "world ?s' = snd ?cr" using w by (simp add: world_log)
    ultimately show ?thesis using \<open>gcb None = Inr b\<close> by auto
  next
    case (Inr c')
    have "postOrUpdateComment_create rt ctx gcb None s = s1"
      using \<open>gcb None = Inr b\<close> c Inr
      by (simp add: postOrUpdateComment_create_def postOrUpdateComment_create_try_def)
    then show ?thesis using \<open>gcb None = Inr b\<close> t a w by auto
  qed
qed


lemma postOrUpdateComment_create_kept:
  "postOrUpdateComment_create rt ctx gcb (Some c) s = s"
  by (simp add: postOrUpdateComment_create_def)

lemma postOrUpdateComment_after_lock:
  assumes "acquireCommentLock rt ctx gcb (log (Info ''Updating PR comment:'') s) = (Inr c, ctx1, s2)"
  shows "\<exists>ctx' s' evs.
           postOrUpdateComment rt ctx gcb s = (Inr (), ctx', s') \<and>
           trace s' = trace s2 @ evs \<and>
           actions evs =
             (let fallback =
                    (case gcb None of
                       Inl e \<Rightarrow> []
                     | Inr b0 \<Rightarrow> [CreateComment (owner ctx) (repo ctx) (issueNumber ctx) (b0 @ footer ctx)])
              in case gcb (Some c) of
                   Inl e \<Rightarrow> fallback
                 | Inr b \<Rightarrow>
                     (let updatedBody = (if string_includes b (footer ctx) then b else b @ footer ctx)
                      in UpdateComment (owner ctx) (repo ctx) (comment_id c) updatedBody #
                         (case fst (issues_updateComment rt (owner ctx) (repo ctx) (comment_id c)
                                      updatedBody (world s2)) of
                            Inl e \<Rightarrow> fallback
                          | Inr u \<Rightarrow> [])))"
proof -
  let ?fallback = "case gcb None of
                       Inl e \<Rightarrow> []
                     | Inr b0 \<Rightarrow> [CreateComment (owner ctx) (repo ctx) (issueNumber ctx) (b0 @ footer ctx)]"
  have c1: "ctx1 = ctx\<lparr>ctx_id := Some (comment_id c)\<rparr>"
    using assms initiateCommentLock_context[of rt ctx gcb "log (Info ''Updating PR comment:'') s" "Inr c" ctx1 s2]
    by (simp add: acquireCommentLock_def)
  have f: "owner ctx1 = owner ctx" "repo ctx1 = repo ctx" "issueNumber ctx1 = issueNumber ctx"
    "footer ctx1 = footer ctx" "ctx1\<lparr>ctx_id := Some (comment_id c)\<rparr> = ctx1"
    using c1 by simp_all
  obtain kept s3 evs1 where
    u: "postOrUpdateComment_update rt ctx1 gcb (Some c) s2 = (kept, ctx1, s3)"
    and t1: "trace s3 = trace s2 @ evs1"
    and k: "case gcb (Some c) of
        Inl e \<Rightarrow> kept = None \<and> actions evs1 = [] \<and> world s3 = world s2
      | Inr b \<Rightarrow>
          actions evs1 = [UpdateComment (owner ctx) (repo ctx) (comment_id c)
                           (if string_includes b (footer ctx) then b else b @ footer ctx)] \<and>
          kept = (case fst (issues_updateComment rt (owner ctx) (repo ctx) (comment_id c)
                              (if string_includes b (footer ctx) then b else b @ footer ctx) (world s2)) of
                    Inl e \<Rightarrow> None
                  | Inr u \<Rightarrow> Some c) \<and>
          world s3 = snd (issues_updateComment rt (owner ctx) (repo ctx) (comment_id c)
                              (if string_includes b (footer ctx) then b else b @ footer ctx) (world s2))"
    using postOrUpdateComment_update_run[of rt ctx1 gcb c s2] unfolding f by blast
  have run: "postOrUpdateComment rt ctx gcb s =
               (Inr (), ctx1, postOrUpdateComment_create rt ctx1 gcb kept s3)"
    using assms u by (simp add: postOrUpdateComment_def Let_def)
  have create: "\<exists>s4 evs2. postOrUpdateComment_create rt ctx1 gcb None s3 = s4 \<and>
      trace s4 = trace s3 @ evs2 \<and> actions evs2 = ?fallback"
    using postOrUpdateComment_create_run[of rt ctx1 gcb s3] unfolding f
    by (cases "gcb None") auto
  have falls: "\<exists>ctx' s' evs. postOrUpdateComment rt ctx gcb s = (Inr (), ctx', s') \<and>
           trace s' = trace s2 @ evs \<and> actions evs = actions evs1 @ ?fallback"
    if "kept = None"
  proof -
    obtain s4 evs2 where
      cr: "postOrUpdateComment_create rt ctx1 gcb None s3 = s4"
      and t2: "trace s4 = trace s3 @ evs2"
      and a2: "actions evs2 = ?fallback"
      using create by blast
    have "postOrUpdateComment rt ctx gcb s = (Inr (), ctx1, s4)"
      using run that cr by simp
    moreover have "trace s4 = trace s2 @ (evs1 @ evs2)"
      using t1 t2 by simp
    moreover have "actions (evs1 @ evs2) = actions evs1 @ ?fallback"
      using a2 by (simp add: actions_append)
    ultimately show ?thesis by blast
  qed
  have stays: "\<exists>ctx' s' evs. postOrUpdateComment rt ctx gcb s = (Inr (), ctx', s') \<and>
           trace s' = trace s2 @ evs \<and> actions evs = actions evs1"
    if "kept = Some c"
  proof -
    have "postOrUpdateComment rt ctx gcb s = (Inr (), ctx1, s3)"
      using run that by (simp add: postOrUpdateComment_create_kept)
    then show ?thesis using t1 by blast
  qed
  show ?thesis
  proof (cases "gcb (Some c)")
    case (Inl e)
    then have "kept = None" "actions evs1 = []" using k by simp_all
    then show ?thesis using falls Inl by (simp add: Let_def)
  next
    case (Inr b)
    let ?ub = "if string_includes b (footer ctx) then b else b @ footer ctx"
    let ?u = "UpdateComment (owner ctx) (repo ctx) (comment_id c) ?ub"
    let ?r = "fst (issues_updateComment rt (owner ctx) (repo ctx) (comment_id c) ?ub (world s2))"
    have a1: "actions evs1 = [?u]"
      and kk: "kept = (case ?r of Inl e \<Rightarrow> None | Inr u \<Rightarrow> Some c)"
      using k Inr by simp_all
    show ?thesis
    proof (cases ?r)
      case (Inl e)
      then have "kept = None" using kk by simp
      then obtain ctx' s' evs where "postOrUpdateComment rt ctx gcb s = (Inr (), ctx', s')"
        "trace s' = trace s2 @ evs" "actions evs = actions evs1 @ ?fallback"
        using falls by blast
      then have "postOrUpdateComment rt ctx gcb s = (Inr (), ctx', s') \<and>
        trace s' = trace s2 @ evs \<and> actions evs = ?u # ?fallback"
        using a1 by simp
      then show ?thesis using \<open>gcb (Some c) = Inr b\<close> Inl
        by (simp only: Let_def sum.case) blast
    next
      case (Inr u)
      then have "kept = Some c" using kk by simp
      then obtain ctx' s' evs where "postOrUpdateComment rt ctx gcb s = (Inr (), ctx', s')"
        "trace s' = trace s2 @ evs" "actions evs = actions evs1"
        using stays by blast
      then have "postOrUpdateComment rt ctx gcb s = (Inr (), ctx', s') \<and>
        trace s' = trace s2 @ evs \<and> actions evs = [?u]"
        using a1 by simp
      then show ?thesis using \<open>gcb (Some c) = Inr b\<close> Inr
        by (simp only: Let_def sum.case) blast
    qed
  qed
qed

lemma postOrUpdateComment_throws_iff:
  "fst (postOrUpdateComment rt ctx gcb s) = Inl e \<longleftrightarrow>
   fst (acquireCommentLock rt ctx gcb (log (Info ''Updating PR comment:'') s)) = Inl e"
  by (cases "acquireCommentLock rt ctx gcb (log (Info ''Updating PR comment:'') s)")
     (auto simp add: postOrUpdateComment_def Let_def split: sum.splits prod.splits)

lemma UpdateComment_in_actions:
  "UpdateComment ow r i b \<in> set evs \<Longrightarrow> UpdateComment ow r i b \<in> set (actions evs)"
  by (simp add: actions_def)

section \<open>Searching a list from its end\<close>

lemma find_Some_split:
  "find P xs = Some x \<Longrightarrow> \<exists>ys zs. xs = ys @ x # zs \<and> P x \<and> (\<forall>y\<in>set ys. \<not> P y)"
proof (induction xs)
  case Nil
  then show ?case by simp
next
  case (Cons a xs)
  show ?case
  proof (cases "P a")
    case True
    then have "x = a" using Cons.prems by simp
    then show ?thesis using True by (intro exI[of _ "[]"] exI[of _ xs]) simp
  next
    case False
    then have "find P xs = Some x" using Cons.prems by simp
    then obtain ys zs where "xs = ys @ x # zs" "P x" "\<forall>y\<in>set ys. \<not> P y"
      using Cons.IH by blast
    then show ?thesis using False by (intro exI[of _ "a # ys"] exI[of _ zs]) simp
  qed
qed

lemma find_rev_Some_split:
  assumes "find P (rev xs) = Some x"
  shows "\<exists>older newer. xs = older @ x # newer \<and> P x \<and> (\<forall>y\<in>set newer. \<not> P y)"
proof -
  obtain ys zs where r: "rev xs = ys @ x # zs" and p: "P x" and n: "\<forall>y\<in>set ys. \<not> P y"
    using find_Some_split[OF assms] by blast
  have "xs = rev zs @ x # rev ys"
    using r by (metis rev_append rev.simps(2) rev_rev_ident append.assoc append_Cons append_Nil)
  then show ?thesis using p n by (intro exI[of _ "rev zs"] exI[of _ "rev ys"]) simp
qed

section \<open>Evaluating runs against the store in memory\<close>

lemma mem_runtime_simps:
  "issues_getComment mem_runtime ow r i w =
     (if fail_get w then (Inl (Error ''get failed''), w)
      else (case find (\<lambda>c. comment_id c = i) (stored w) of
              None \<Rightarrow> (Inl (Error ''Not Found''), w)
            | Some c \<Rightarrow> (Inr c, w)))"
  "issues_listComments mem_runtime ow r n w =
     (if fail_list w then (Inl (Error ''list failed''), w) else (Inr (stored w), w))"
  "issues_createComment mem_runtime ow r n b w =
     (if fail_create w then (Inl (Error ''create failed''), w)
      else (Inr \<lparr>comment_id = next_id w, body = b, user_type = ''Bot''\<rparr>,
            w\<lparr>stored := stored w @ [\<lparr>comment_id = next_id w, body = b, user_type = ''Bot''\<rparr>],
              next_id := Suc (next_id w)\<rparr>))"
  "issues_updateComment mem_runtime ow r i b w =
     (if fail_update w then (Inl (Error ''update failed''), w)
      else (Inr (), w\<lparr>stored := map (\<lambda>c. if comment_id c = i then c\<lparr>body := b\<rparr> else c) (stored w)\<rparr>))"
  "timer mem_runtime ms w = w"
  by (simp_all add: mem_runtime_def Let_def)

lemma short_context_simps:
  "owner short_context = ''octo''"
  "repo short_context = ''bench''"
  "issueNumber short_context = 7"
  "ctx_id short_context = None"
  "footer short_context = short_footer"
  "matches short_context c = (user_type c = ''Bot'' \<and> string_includes (body c) (trim short_footer))"
  "delayFactor short_context = 3"
  by (simp_all add: short_context_def)


lemma trim_short_footer: "trim short_footer = ''<sub>report</sub>''"
  by (simp add: trim_def short_footer_def is_white_space_def)

lemma includes_code:
  "string_includes s [] = True"
  "string_includes [] (x # xs) = False"
  "string_includes (y # ys) (x # xs) = (prefix (x # xs) (y # ys) \<or> string_includes ys (x # xs))"
  by (simp_all only: string_includes_def sublist_code)

lemma example_matches:
  "matches short_context old_report"
  "matches short_context new_report"
  "\<not> matches short_context human_note"
  "\<not> matches short_context other_bot"
  by (simp_all add: short_context_simps trim_short_footer includes_code
        old_report_def new_report_def human_note_def other_bot_def)


lemma locate_formula:
  "locate rt ctx w =
     (let listing =
            (case issues_listComments rt (owner ctx) (repo ctx) (issueNumber ctx) w of
               (Inl e, w') \<Rightarrow> (None, w')
             | (Inr cs, w') \<Rightarrow> (find (matches ctx) (rev cs), w'))
      in case ctx_id ctx of
           None \<Rightarrow> listing
         | Some i \<Rightarrow>
             if i \<noteq> 0 then
               (case issues_getComment rt (owner ctx) (repo ctx) i w of
                  (Inl e, w') \<Rightarrow> (None, w')
                | (Inr c, w') \<Rightarrow> (Some c, w'))
             else listing)"
proof -
  let ?z = "\<lparr>world = w, trace = []\<rparr>"
  have "fst (locate rt ctx w) = (case fst (readComment_try rt ctx ?z) of Inl e \<Rightarrow> None | Inr r \<Rightarrow> r)"
    using readComment_locate(1)[of rt ctx ?z] by (simp add: readComment_fst)
  moreover have "snd (locate rt ctx w) = world (snd (readComment_try rt ctx ?z))"
    using readComment_locate(2)[of rt ctx ?z] by (simp add: readComment_world)
  ultimately have "locate rt ctx w =
      ((case fst (readComment_try rt ctx ?z) of Inl e \<Rightarrow> None | Inr r \<Rightarrow> r),
       world (snd (readComment_try rt ctx ?z)))"
    by (metis prod.collapse)
  then show ?thesis
    by (simp add: readComment_try_fst readComment_try_world Let_def case_prod_unfold
          split: option.splits sum.splits)
qed

lemma locate_mem_nothing:
  assumes "stored w = []" and "\<not> fail_list w"
  shows "locate mem_runtime ctx w = (None, w)"
    and "locate_again mem_runtime ctx w = (None, w)"
proof -
  show 1: "locate mem_runtime ctx w = (None, w)"
    using assms by (simp add: locate_formula mem_runtime_simps Let_def split: option.splits)
  then show "locate_again mem_runtime ctx w = (None, w)"
    by (simp add: locate_again_def mem_runtime_simps)
qed



lemma trim_example_footer_head:
  "\<exists>rest. trim (make_footer example_workflow) = CHR ''<'' # rest"
proof -
  have "\<exists>rest. dropWhile is_white_space (make_footer example_workflow) = CHR ''<'' # rest @ ''>''"
    by (simp add: make_footer_def is_white_space_def)
  then obtain rest where d: "dropWhile is_white_space (make_footer example_workflow) = CHR ''<'' # rest @ ''>''"
    by blast
  have "trim (make_footer example_workflow) = CHR ''<'' # rest @ ''>''"
    unfolding trim_def d by (simp add: is_white_space_def)
  then show ?thesis by blast
qed

lemma results_lacks_example_footer:
  "\<not> string_includes ''results'' (trim (make_footer example_workflow))"
proof -
  obtain rest where t: "trim (make_footer example_workflow) = CHR ''<'' # rest"
    using trim_example_footer_head by blast
  show ?thesis unfolding t by (simp add: includes_code)
qed

section \<open>Properties of the module\<close>

subsection \<open>Exceptions that reach the caller\<close>

text \<open>
  C1. The orchestrator catches what its own update and its own create throw, and
  \<open>readComment\<close> catches what the reads throw, but the create request inside
  \<open>initiateCommentLock\<close> is awaited outside any \<open>try\<close>, and so is the call of
  \<open>acquireCommentLock\<close> in \<open>postOrUpdateComment\<close>. On a thread without a matching comment
  and a store whose create request throws, \<open>postOrUpdateComment\<close> ends with that
  exception instead of returning.
\<close>

theorem postOrUpdateComment_propagates_create_failure:
  "fst (postOrUpdateComment mem_runtime short_context (\<lambda>c. Inr ''results'')
          (start (mem_empty\<lparr>fail_create := True\<rparr>))) = Inl (Error ''create failed'')"
proof -
  let ?w = "mem_empty\<lparr>fail_create := True\<rparr>"
  let ?g = "\<lambda>c::comment option. (Inr ''results'' :: js_error + string)"
  let ?s = "log (Info ''Updating PR comment:'') (start ?w)"
  have w: "world ?s = ?w" by (simp add: world_log start_def)
  have e: "stored ?w = []" "\<not> fail_list ?w" "fail_create ?w"
    by (simp_all add: mem_empty_def)
  have l: "fst (locate mem_runtime short_context (world ?s)) = None"
    "fst (locate_again mem_runtime short_context (world ?s)) = None"
    "snd (locate_again mem_runtime short_context (world ?s)) = ?w"
    unfolding w by (simp_all only: locate_mem_nothing[OF e(1,2)] fst_conv snd_conv)
  have cr: "fst (issues_createComment mem_runtime (owner short_context) (repo short_context)
              (issueNumber short_context) ''results'' (snd (locate_again mem_runtime short_context (world ?s))))
            = Inl (Error ''create failed'')"
    unfolding l(3) using e(3) by (simp add: mem_runtime_simps)
  obtain s' where "initiateCommentLock mem_runtime short_context ?g ?s =
      (Inl (Error ''create failed''), short_context, s')"
    using initiateCommentLock_creates[where rt=mem_runtime and ctx=short_context and gib="?g"
        and s="?s" and b="''results''", OF l(1,2)] cr
    by auto
  then show ?thesis
    by (simp add: postOrUpdateComment_throws_iff acquireCommentLock_def)
qed

subsection \<open>The footer in the orchestrator's writes\<close>





subsection \<open>The staggered creation protocol\<close>



subsection \<open>The match predicate\<close>

text \<open>
  C4. \<open>createCommentContext\<close> always succeeds, and the \<open>matches\<close> it stores holds for a
  comment exactly when \<open>user.type\<close> is \<open>"Bot"\<close> and the pattern built from the escaped,
  trimmed footer matches the body, which is the case exactly when the trimmed footer occurs
  somewhere in the body. In particular a comment whose author is not a bot never matches,
  whatever its body contains.
\<close>

theorem matches_bot_and_footer:
  "\<exists>ctx. createCommentContext context workflowInfo = Inr ctx \<and>
         footer ctx = make_footer workflowInfo \<and>
         RegExp (escapeRe (trim (footer ctx))) = Inr (footerRe ctx) \<and>
         (\<forall>c. matches ctx c = (user_type c = ''Bot'' \<and> regexp_test (footerRe ctx) (body c))) \<and>
         (\<forall>c::comment. regexp_test (footerRe ctx) (body c) =
                (\<exists>before after. body c = before @ trim (footer ctx) @ after)) \<and>
         (\<forall>c. user_type c \<noteq> ''Bot'' \<longrightarrow> \<not> matches ctx c)"
  by (simp add: createCommentContext_result RegExp_escapeRe string_includes_iff)

theorem matches_bot_and_footer_witness:
  "\<exists>ctx. createCommentContext example_action example_workflow = Inr ctx \<and>
         user_type quoting_person \<noteq> ''Bot'' \<and>
         string_includes (body quoting_person) (footer ctx) \<and>
         \<not> matches ctx quoting_person \<and>
         matches ctx footed_report"
proof -
  obtain ctx where c: "createCommentContext example_action example_workflow = Inr ctx"
    and f: "footer ctx = make_footer example_workflow"
    and m: "\<forall>c. matches ctx c = (user_type c = ''Bot'' \<and> regexp_test (footerRe ctx) (body c))"
    and r: "\<forall>c::comment. regexp_test (footerRe ctx) (body c) =
                (\<exists>before after. body c = before @ trim (footer ctx) @ after)"
    and h: "\<forall>c. user_type c \<noteq> ''Bot'' \<longrightarrow> \<not> matches ctx c"
    using matches_bot_and_footer[of example_action example_workflow] by blast
  have 1: "user_type quoting_person \<noteq> ''Bot''"
    by (simp add: quoting_person_def)
  have b: "body quoting_person = ''what does this mean? '' @ footer ctx"
    by (simp add: quoting_person_def f)
  have 2: "string_includes (body quoting_person) (footer ctx)"
    by (subst b) (rule string_includes_append_self)
  have 3: "\<not> matches ctx quoting_person"
    using h 1 by blast
  have "string_includes (body footed_report) (footer ctx)"
    unfolding string_includes_iff f footed_report_def
    by (intro exI[of _ "''results''"] exI[of _ "''\<newline>''"]) simp
  then have "string_includes (body footed_report) (trim (footer ctx))"
    by (rule string_includes_trim)
  then have "regexp_test (footerRe ctx) (body footed_report)"
    using r unfolding string_includes_iff by blast
  moreover have "user_type footed_report = ''Bot''"
    by (simp add: footed_report_def)
  ultimately have 4: "matches ctx footed_report"
    using m by blast
  show ?thesis using c 1 2 3 4 by blast
qed

subsection \<open>Locating by listing\<close>

text \<open>
  C5. When \<open>context.id\<close> is \<open>null\<close>, \<open>readComment\<close> sends one \<open>listComments\<close> request
  (owner, repository and issue number, no page: the first page) and nothing else. When the
  request returns, the listing is scanned from its last element to its first and the first
  comment that satisfies \<open>context.matches\<close> is returned: the comments after it in the
  listing (the more recent ones) do not match. When no comment of the listing matches, no
  comment is returned.
\<close>

theorem readComment_scans_listing_from_the_end:
  assumes "ctx_id ctx = None"
    and "issues_listComments rt (owner ctx) (repo ctx) (issueNumber ctx) (world s) = (Inr comments, w)"
  shows "fst (readComment rt ctx s) = Inr (find (matches ctx) (rev comments)) \<and>
         world (snd (readComment rt ctx s)) = w \<and>
         (\<exists>evs. trace (snd (readComment rt ctx s)) = trace s @ evs \<and>
                actions evs = [ListComments (owner ctx) (repo ctx) (issueNumber ctx)]) \<and>
         (\<forall>c. fst (readComment rt ctx s) = Inr (Some c) \<longrightarrow>
              (\<exists>older newer. comments = older @ c # newer \<and> matches ctx c \<and>
                              (\<forall>x\<in>set newer. \<not> matches ctx x))) \<and>
         ((\<forall>x\<in>set comments. \<not> matches ctx x) \<longrightarrow> fst (readComment rt ctx s) = Inr None)"
proof -
  have f: "fst (readComment rt ctx s) = Inr (find (matches ctx) (rev comments))"
    using assms by (simp add: readComment_fst readComment_try_fst)
  have w: "world (snd (readComment rt ctx s)) = w"
    using assms by (simp add: readComment_world readComment_try_world)
  have rc: "read_call ctx = ListComments (owner ctx) (repo ctx) (issueNumber ctx)"
    using assms(1) by (simp add: read_call_def)
  have t: "\<exists>evs. trace (snd (readComment rt ctx s)) = trace s @ evs \<and>
                actions evs = [ListComments (owner ctx) (repo ctx) (issueNumber ctx)]"
  proof -
    obtain msg evs where "trace (snd (readComment rt ctx s)) = trace s @ Info msg # read_call ctx # evs"
      and "actions evs = []"
      using readComment_trace[of rt ctx s] by blast
    then have "trace (snd (readComment rt ctx s)) = trace s @ (Info msg # read_call ctx # evs) \<and>
       actions (Info msg # read_call ctx # evs) = [ListComments (owner ctx) (repo ctx) (issueNumber ctx)]"
      by (simp add: actions_simps rc)
    then show ?thesis by blast
  qed
  have m: "\<forall>c. fst (readComment rt ctx s) = Inr (Some c) \<longrightarrow>
              (\<exists>older newer. comments = older @ c # newer \<and> matches ctx c \<and>
                              (\<forall>x\<in>set newer. \<not> matches ctx x))"
    using f find_rev_Some_split[of "matches ctx" comments] by auto
  have n: "(\<forall>x\<in>set comments. \<not> matches ctx x) \<longrightarrow> fst (readComment rt ctx s) = Inr None"
    using f by (auto simp: find_None_iff)
  show ?thesis using f w t m n by blast
qed

theorem readComment_scans_listing_from_the_end_witness:
  "ctx_id short_context = None \<and>
   issues_listComments mem_runtime (owner short_context) (repo short_context)
       (issueNumber short_context) (world (start mem_thread)) =
     (Inr [old_report, new_report, human_note, other_bot], mem_thread) \<and>
   matches short_context old_report \<and> matches short_context new_report \<and>
   fst (readComment mem_runtime short_context (start mem_thread)) = Inr (Some new_report)"
proof -
  have 1: "ctx_id short_context = None"
    by (simp add: short_context_simps)
  have 2: "issues_listComments mem_runtime (owner short_context) (repo short_context)
       (issueNumber short_context) (world (start mem_thread)) =
     (Inr [old_report, new_report, human_note, other_bot], mem_thread)"
    by (simp add: mem_runtime_simps start_def mem_thread_def mem_empty_def)
  show ?thesis
    using readComment_scans_listing_from_the_end[OF 1 2] 1 2
    by (simp add: example_matches)
qed

subsection \<open>Read failures\<close>

text \<open>
  C6. \<open>readComment\<close> never throws. When the request it sends to the store
  (\<open>getComment\<close> for a context whose id is set and not zero, \<open>listComments\<close> otherwise)
  throws \<open>e\<close>, \<open>readComment\<close> returns no comment, and what it did is: one \<open>info\<close>
  line, the request, a \<open>warn\<close> line carrying the message of \<open>e\<close>, and a \<open>debug\<close> call.
\<close>

theorem readComment_catches_read_failures:
  "(\<exists>r. fst (readComment rt ctx s) = Inr r) \<and>
   (\<forall>i e. ctx_id ctx = Some i \<and> i \<noteq> 0 \<and>
          fst (issues_getComment rt (owner ctx) (repo ctx) i (world s)) = Inl e \<longrightarrow>
      fst (readComment rt ctx s) = Inr None \<and>
      (\<exists>msg. trace (snd (readComment rt ctx s)) =
         trace s @ [Info msg, GetComment (owner ctx) (repo ctx) i,
                    Warn (''Error trying to read comments: '' @ message e), Debug])) \<and>
   (\<forall>e. (ctx_id ctx = None \<or> ctx_id ctx = Some 0) \<and>
        fst (issues_listComments rt (owner ctx) (repo ctx) (issueNumber ctx) (world s)) = Inl e \<longrightarrow>
      fst (readComment rt ctx s) = Inr None \<and>
      (\<exists>msg. trace (snd (readComment rt ctx s)) =
         trace s @ [Info msg, ListComments (owner ctx) (repo ctx) (issueNumber ctx),
                    Warn (''Error trying to read comments: '' @ message e), Debug]))"
proof (intro conjI allI impI)
  show "\<exists>r. fst (readComment rt ctx s) = Inr r"
    by (simp add: readComment_fst)
next
  fix i e
  assume h: "ctx_id ctx = Some i \<and> i \<noteq> 0 \<and>
          fst (issues_getComment rt (owner ctx) (repo ctx) i (world s)) = Inl e"
  then have t: "fst (readComment_try rt ctx s) = Inl e"
    by (simp add: readComment_try_fst)
  have rc: "read_call ctx = GetComment (owner ctx) (repo ctx) i"
    using h by (simp add: read_call_def)
  show "fst (readComment rt ctx s) = Inr None"
    using t by (simp add: readComment_fst)
  show "\<exists>msg. trace (snd (readComment rt ctx s)) =
         trace s @ [Info msg, GetComment (owner ctx) (repo ctx) i,
                    Warn (''Error trying to read comments: '' @ message e), Debug]"
    using readComment_trace[of rt ctx s] t rc by auto
next
  fix e
  assume h: "(ctx_id ctx = None \<or> ctx_id ctx = Some 0) \<and>
        fst (issues_listComments rt (owner ctx) (repo ctx) (issueNumber ctx) (world s)) = Inl e"
  then have t: "fst (readComment_try rt ctx s) = Inl e"
    by (auto simp add: readComment_try_fst)
  have rc: "read_call ctx = ListComments (owner ctx) (repo ctx) (issueNumber ctx)"
    using h by (auto simp add: read_call_def)
  show "fst (readComment rt ctx s) = Inr None"
    using t by (simp add: readComment_fst)
  show "\<exists>msg. trace (snd (readComment rt ctx s)) =
         trace s @ [Info msg, ListComments (owner ctx) (repo ctx) (issueNumber ctx),
                    Warn (''Error trying to read comments: '' @ message e), Debug]"
    using readComment_trace[of rt ctx s] t rc by auto
qed

theorem readComment_catches_read_failures_witness:
  "ctx_id short_context = None \<and>
   fst (issues_listComments mem_runtime (owner short_context) (repo short_context)
          (issueNumber short_context) (mem_empty\<lparr>fail_list := True\<rparr>)) = Inl (Error ''list failed'') \<and>
   fst (readComment mem_runtime short_context (start (mem_empty\<lparr>fail_list := True\<rparr>))) = Inr None \<and>
   (\<exists>msg. trace (snd (readComment mem_runtime short_context (start (mem_empty\<lparr>fail_list := True\<rparr>)))) =
      [Info msg, ListComments ''octo'' ''bench'' 7,
       Warn ''Error trying to read comments: list failed'', Debug]) \<and>
   ctx_id (short_context\<lparr>ctx_id := Some 13\<rparr>) = Some 13 \<and> (13::nat) \<noteq> 0 \<and>
   fst (issues_getComment mem_runtime ''octo'' ''bench'' 13 (mem_thread\<lparr>fail_get := True\<rparr>)) =
     Inl (Error ''get failed'') \<and>
   fst (readComment mem_runtime (short_context\<lparr>ctx_id := Some 13\<rparr>)
          (start (mem_thread\<lparr>fail_get := True\<rparr>))) = Inr None \<and>
   (\<exists>msg. trace (snd (readComment mem_runtime (short_context\<lparr>ctx_id := Some 13\<rparr>)
          (start (mem_thread\<lparr>fail_get := True\<rparr>)))) =
      [Info msg, GetComment ''octo'' ''bench'' 13,
       Warn ''Error trying to read comments: get failed'', Debug])"
  using readComment_catches_read_failures
          [of mem_runtime short_context "start (mem_empty\<lparr>fail_list := True\<rparr>)"]
        readComment_catches_read_failures
          [of mem_runtime "short_context\<lparr>ctx_id := Some 13\<rparr>" "start (mem_thread\<lparr>fail_get := True\<rparr>)"]
  by (simp add: short_context_simps mem_runtime_simps mem_empty_def start_def)

subsection \<open>Updating needs an id\<close>

text \<open>
  C7. When \<open>context.id\<close> is \<open>null\<close>, \<open>updateComment\<close> throws its precondition error and
  nothing else happens: no logger call, no request, the world is untouched. When
  \<open>context.id\<close> is set, it sends exactly one \<open>updateComment\<close> request, for that id and
  with the whole new body, and its outcome is the outcome of that request.
\<close>

theorem updateComment_requires_id:
  \<open>(ctx_id ctx = None \<longrightarrow>
      updateComment rt ctx new_body s =
        (Inl (Error ''Cannot update comment if "context.id" is null''), s)) \<and>
   (\<forall>i. ctx_id ctx = Some i \<longrightarrow>
      fst (updateComment rt ctx new_body s) =
        fst (issues_updateComment rt (owner ctx) (repo ctx) i new_body (world s)) \<and>
      world (snd (updateComment rt ctx new_body s)) =
        snd (issues_updateComment rt (owner ctx) (repo ctx) i new_body (world s)) \<and>
      (\<exists>evs. trace (snd (updateComment rt ctx new_body s)) = trace s @ evs \<and>
             actions evs = [UpdateComment (owner ctx) (repo ctx) i new_body]))\<close>
proof (intro conjI allI impI)
  assume "ctx_id ctx = None"
  then show \<open>updateComment rt ctx new_body s =
        (Inl (Error ''Cannot update comment if "context.id" is null''), s)\<close>
    by (simp add: updateComment_def)
next
  fix i
  assume i: "ctx_id ctx = Some i"
  let ?r = "issues_updateComment rt (owner ctx) (repo ctx) i new_body (world s)"
  show "fst (updateComment rt ctx new_body s) = fst ?r"
    using i by (cases "fst ?r")
      (simp_all add: updateComment_def Let_def case_prod_unfold world_log)
  show "world (snd (updateComment rt ctx new_body s)) = snd ?r"
    using i by (cases "fst ?r")
      (simp_all add: updateComment_def Let_def case_prod_unfold world_log)
  let ?m = "Info (''Updating comment body (id: '' @ show_nat i @ '')...'')"
  let ?u = "UpdateComment (owner ctx) (repo ctx) i new_body"
  show "\<exists>evs. trace (snd (updateComment rt ctx new_body s)) = trace s @ evs \<and>
             actions evs = [UpdateComment (owner ctx) (repo ctx) i new_body]"
  proof (cases "fst ?r")
    case (Inl e)
    then have "trace (snd (updateComment rt ctx new_body s)) = trace s @ [?m, ?u]"
      using i by (simp add: updateComment_def Let_def case_prod_unfold trace_log world_log)
    moreover have "actions [?m, ?u] = [?u]" by (simp add: actions_simps)
    ultimately show ?thesis by blast
  next
    case (Inr u)
    then have "trace (snd (updateComment rt ctx new_body s)) = trace s @ [?m, ?u, Debug]"
      using i by (simp add: updateComment_def Let_def case_prod_unfold trace_log world_log)
    moreover have "actions [?m, ?u, Debug] = [?u]" by (simp add: actions_simps)
    ultimately show ?thesis by blast
  qed
qed

theorem updateComment_requires_id_witness:
  \<open>ctx_id short_context = None \<and>
   updateComment mem_runtime short_context ''new text'' (start mem_thread) =
     (Inl (Error ''Cannot update comment if "context.id" is null''), start mem_thread) \<and>
   ctx_id (short_context\<lparr>ctx_id := Some 13\<rparr>) = Some 13 \<and>
   fst (updateComment mem_runtime (short_context\<lparr>ctx_id := Some 13\<rparr>) ''new text'' (start mem_thread)) = Inr () \<and>
   stored (world (snd (updateComment mem_runtime (short_context\<lparr>ctx_id := Some 13\<rparr>) ''new text'' (start mem_thread)))) =
     [old_report, new_report\<lparr>body := ''new text''\<rparr>, human_note, other_bot] \<and>
   actions (trace (snd (updateComment mem_runtime (short_context\<lparr>ctx_id := Some 13\<rparr>) ''new text'' (start mem_thread)))) =
     [UpdateComment ''octo'' ''bench'' 13 ''new text'']\<close>
  using updateComment_requires_id[of short_context mem_runtime "''new text''" "start mem_thread"]
        updateComment_requires_id[of "short_context\<lparr>ctx_id := Some 13\<rparr>" mem_runtime "''new text''" "start mem_thread"]
  by (auto simp add: short_context_simps mem_runtime_simps start_def mem_thread_def mem_empty_def
        old_report_def new_report_def human_note_def other_bot_def)

subsection \<open>The resolved id\<close>




subsection \<open>Locating by id\<close>




subsection \<open>The comment created by the protocol carries no footer\<close>

text \<open>
  C10. For a context built by \<open>createCommentContext\<close>:
  \<^item> every create request that \<open>initiateCommentLock\<close> sends carries as its body exactly
    what \<open>getInitialBody(null)\<close> returned; nothing is appended;
  \<^item> when that body does not contain the footer text (the trimmed footer, which is what
    \<open>matches\<close> looks for), no comment with that body satisfies \<open>matches\<close>;
  \<^item> every update request that \<open>postOrUpdateComment\<close> sends after the lock is for the
    comment the lock returned, and its body contains the footer text;
  \<^item> a comment authored by a bot whose body contains the footer text satisfies
    \<open>matches\<close>.
\<close>

theorem lock_create_has_no_footer:
  assumes "createCommentContext context workflowInfo = Inr ctx"
  shows "(\<forall>res ctx' s' evs e.
            initiateCommentLock rt ctx getInitialBody s = (res, ctx', s') \<and>
            trace s' = trace s @ evs \<and> e \<in> set evs \<and> is_create e \<longrightarrow>
            (\<exists>b. getInitialBody None = Inr b \<and>
                 e = CreateComment (owner ctx) (repo ctx) (issueNumber ctx) b)) \<and>
         (\<forall>b c. getInitialBody None = Inr b \<and> \<not> string_includes b (trim (footer ctx)) \<and>
                body c = b \<longrightarrow> \<not> matches ctx c) \<and>
         (\<forall>c ctx1 s2 res ctx' s' evs ow r i ub.
            acquireCommentLock rt ctx getInitialBody (log (Info ''Updating PR comment:'') s) = (Inr c, ctx1, s2) \<and>
            postOrUpdateComment rt ctx getInitialBody s = (res, ctx', s') \<and>
            trace s' = trace s2 @ evs \<and> UpdateComment ow r i ub \<in> set evs \<longrightarrow>
            i = comment_id c \<and> string_includes ub (trim (footer ctx))) \<and>
         (\<forall>c. user_type c = ''Bot'' \<and> string_includes (body c) (trim (footer ctx)) \<longrightarrow>
              matches ctx c)"
proof (intro conjI allI impI)
  fix res ctx' s' evs e
  assume h: "initiateCommentLock rt ctx getInitialBody s = (res, ctx', s') \<and>
            trace s' = trace s @ evs \<and> e \<in> set evs \<and> is_create e"
  then have m: "e \<in> set (filter is_create evs)" by simp
  have "filter is_create evs = [] \<or>
         (\<exists>b. getInitialBody None = Inr b \<and>
              filter is_create evs = [CreateComment (owner ctx) (repo ctx) (issueNumber ctx) b])"
    using initiateCommentLock_create_events[of rt ctx getInitialBody s res ctx' s' evs] h
    by blast
  then show "\<exists>b. getInitialBody None = Inr b \<and>
                 e = CreateComment (owner ctx) (repo ctx) (issueNumber ctx) b"
  proof
    assume "filter is_create evs = []"
    then show ?thesis using m by simp
  next
    assume "\<exists>b. getInitialBody None = Inr b \<and>
              filter is_create evs = [CreateComment (owner ctx) (repo ctx) (issueNumber ctx) b]"
    then obtain b where "getInitialBody None = Inr b"
      and "filter is_create evs = [CreateComment (owner ctx) (repo ctx) (issueNumber ctx) b]"
      by blast
    then show ?thesis using m by (intro exI[of _ b]) simp
  qed
next
  fix b and c :: comment
  assume "getInitialBody None = Inr b \<and> \<not> string_includes b (trim (footer ctx)) \<and> body c = b"
  then show "\<not> matches ctx c"
    using assms by (auto simp add: createCommentContext_result)
next
  fix c ctx1 s2 res ctx' s' evs ow r i ub
  assume h: "acquireCommentLock rt ctx getInitialBody (log (Info ''Updating PR comment:'') s) = (Inr c, ctx1, s2) \<and>
            postOrUpdateComment rt ctx getInitialBody s = (res, ctx', s') \<and>
            trace s' = trace s2 @ evs \<and> UpdateComment ow r i ub \<in> set evs"
  let ?fallback = "case getInitialBody None of
                       Inl e \<Rightarrow> []
                     | Inr b0 \<Rightarrow> [CreateComment (owner ctx) (repo ctx) (issueNumber ctx) (b0 @ footer ctx)]"
  obtain ctx'' s'' evs' where
    p: "postOrUpdateComment rt ctx getInitialBody s = (Inr (), ctx'', s'')"
    and t: "trace s'' = trace s2 @ evs'"
    and a: "actions evs' =
             (let fallback = ?fallback
              in case getInitialBody (Some c) of
                   Inl e \<Rightarrow> fallback
                 | Inr b \<Rightarrow>
                     (let updatedBody = (if string_includes b (footer ctx) then b else b @ footer ctx)
                      in UpdateComment (owner ctx) (repo ctx) (comment_id c) updatedBody #
                         (case fst (issues_updateComment rt (owner ctx) (repo ctx) (comment_id c)
                                      updatedBody (world s2)) of
                            Inl e \<Rightarrow> fallback
                          | Inr u \<Rightarrow> [])))"
    using postOrUpdateComment_after_lock[of rt ctx getInitialBody s c ctx1 s2] h by blast
  have "evs' = evs" using p t h by simp
  then have mem: "UpdateComment ow r i ub \<in> set (actions evs')"
    using h UpdateComment_in_actions by blast
  have nf: "UpdateComment ow r i ub \<notin> set ?fallback"
    by (cases "getInitialBody None") simp_all
  have "\<exists>b. i = comment_id c \<and> ub = (if string_includes b (footer ctx) then b else b @ footer ctx)"
  proof (cases "getInitialBody (Some c)")
    case (Inl e)
    then show ?thesis using mem nf a by (simp add: Let_def)
  next
    case (Inr b)
    let ?ub = "if string_includes b (footer ctx) then b else b @ footer ctx"
    have "actions evs' = UpdateComment (owner ctx) (repo ctx) (comment_id c) ?ub #
             (case fst (issues_updateComment rt (owner ctx) (repo ctx) (comment_id c) ?ub (world s2)) of
                Inl e \<Rightarrow> ?fallback | Inr u \<Rightarrow> [])"
      using a Inr by (simp only: Let_def sum.case)
    then have "UpdateComment ow r i ub = UpdateComment (owner ctx) (repo ctx) (comment_id c) ?ub"
      using mem nf
      by (cases "fst (issues_updateComment rt (owner ctx) (repo ctx) (comment_id c) ?ub (world s2))")
         (simp_all del: event.inject)
    then show ?thesis by blast
  qed
  then obtain b where i: "i = comment_id c"
    and ub: "ub = (if string_includes b (footer ctx) then b else b @ footer ctx)"
    by blast
  have "string_includes ub (footer ctx)"
    using ub by (auto simp add: string_includes_append_self)
  then show "string_includes ub (trim (footer ctx))"
    by (rule string_includes_trim)
  show "i = comment_id c" by (rule i)
next
  fix c :: comment
  assume "user_type c = ''Bot'' \<and> string_includes (body c) (trim (footer ctx))"
  then show "matches ctx c"
    using assms by (auto simp add: createCommentContext_result)
qed

theorem lock_create_has_no_footer_witness:
  "\<exists>ctx. createCommentContext example_action example_workflow = Inr ctx \<and>
     (\<exists>res ctx' s' evs.
        initiateCommentLock mem_runtime ctx (\<lambda>c. Inr ''results'') (start mem_empty) = (res, ctx', s') \<and>
        trace s' = trace (start mem_empty) @ evs \<and>
        filter is_create evs = [CreateComment ''octo'' ''bench'' 7 ''results'']) \<and>
     \<not> string_includes ''results'' (trim (footer ctx)) \<and>
     \<not> matches ctx \<lparr>comment_id = 1, body = ''results'', user_type = ''Bot''\<rparr> \<and>
     (\<exists>c ctx1 s2 res ctx' s' evs.
        acquireCommentLock mem_runtime ctx (\<lambda>c. Inr ''results'')
           (log (Info ''Updating PR comment:'') (start mem_empty)) = (Inr c, ctx1, s2) \<and>
        postOrUpdateComment mem_runtime ctx (\<lambda>c. Inr ''results'') (start mem_empty) = (res, ctx', s') \<and>
        trace s' = trace s2 @ evs \<and>
        UpdateComment ''octo'' ''bench'' 1 (''results'' @ footer ctx) \<in> set evs) \<and>
     string_includes (''results'' @ footer ctx) (trim (footer ctx)) \<and>
     matches ctx \<lparr>comment_id = 1, body = ''results'' @ footer ctx, user_type = ''Bot''\<rparr>"
proof -
  obtain ctx where c: "createCommentContext example_action example_workflow = Inr ctx"
    and f: "footer ctx = make_footer example_workflow"
    and o: "owner ctx = ''octo''" "repo ctx = ''bench''" "issueNumber ctx = 7"
    by (simp add: createCommentContext_result example_action_def)
  let ?g = "\<lambda>c::comment option. (Inr ''results'' :: js_error + string)"
  let ?s = "start mem_empty"
  let ?s1 = "log (Info ''Updating PR comment:'') (start mem_empty)"
  let ?c1 = "\<lparr>comment_id = 1, body = ''results'', user_type = ''Bot''\<rparr>"
  have e: "stored (world ?s) = []" "\<not> fail_list (world ?s)"
    by (simp_all add: start_def mem_empty_def)
  have e1: "stored (world ?s1) = []" "\<not> fail_list (world ?s1)"
    by (simp_all add: start_def mem_empty_def world_log)
  have l: "fst (locate mem_runtime ctx (world ?s)) = None"
    "fst (locate_again mem_runtime ctx (world ?s)) = None"
    by (simp_all only: locate_mem_nothing[OF e] fst_conv)
  have l1: "fst (locate mem_runtime ctx (world ?s1)) = None"
    "fst (locate_again mem_runtime ctx (world ?s1)) = None"
    "snd (locate_again mem_runtime ctx (world ?s1)) = world ?s1"
    by (simp_all only: locate_mem_nothing[OF e1] fst_conv snd_conv)
  let ?cr = "issues_createComment mem_runtime (owner ctx) (repo ctx) (issueNumber ctx) ''results''
               (snd (locate_again mem_runtime ctx (world ?s)))"
  obtain s' evs where
    run: "initiateCommentLock mem_runtime ctx ?g ?s =
       (fst ?cr, (case fst ?cr of Inl e \<Rightarrow> ctx | Inr c \<Rightarrow> ctx\<lparr>ctx_id := Some (comment_id c)\<rparr>), s')"
    and "world s' = snd ?cr"
    and t: "trace s' = trace ?s @ evs"
    and a: "actions evs = [read_call ctx, Sleep (delayFactor ctx * 100), read_call ctx,
                    CreateComment (owner ctx) (repo ctx) (issueNumber ctx) ''results'']"
    by (rule initiateCommentLock_creates[where rt=mem_runtime and ctx=ctx and gib="?g"
        and s="?s" and b="''results''", OF l refl])
  have fc: "filter is_create evs = [CreateComment ''octo'' ''bench'' 7 ''results'']"
    using filter_actions[of is_create evs, OF is_create_not_log] a o
    by (simp add: is_locate_read_call)
  have n: "\<not> string_includes ''results'' (trim (footer ctx))"
    unfolding f by (rule results_lacks_example_footer)
  have n': "\<not> string_includes ''results'' (footer ctx)"
    using n string_includes_trim by blast
  have 1: "\<not> matches ctx ?c1"
    using lock_create_has_no_footer[OF c, of mem_runtime ?g ?s] n by simp
  let ?cr1 = "issues_createComment mem_runtime (owner ctx) (repo ctx) (issueNumber ctx) ''results''
               (snd (locate_again mem_runtime ctx (world ?s1)))"
  have cr1: "fst ?cr1 = Inr ?c1"
    unfolding l1(3) by (simp add: mem_runtime_simps world_log start_def mem_empty_def)
  obtain s2 evs1 where
    run1: "initiateCommentLock mem_runtime ctx ?g ?s1 =
       (fst ?cr1, (case fst ?cr1 of Inl e \<Rightarrow> ctx | Inr c \<Rightarrow> ctx\<lparr>ctx_id := Some (comment_id c)\<rparr>), s2)"
    and "world s2 = snd ?cr1"
    and "trace s2 = trace ?s1 @ evs1"
    and "actions evs1 = [read_call ctx, Sleep (delayFactor ctx * 100), read_call ctx,
                    CreateComment (owner ctx) (repo ctx) (issueNumber ctx) ''results'']"
    by (rule initiateCommentLock_creates[where rt=mem_runtime and ctx=ctx and gib="?g"
        and s="?s1" and b="''results''", OF l1(1,2) refl])
  have acq: "acquireCommentLock mem_runtime ctx ?g ?s1 = (Inr ?c1, ctx\<lparr>ctx_id := Some 1\<rparr>, s2)"
    using run1 cr1 by (simp add: acquireCommentLock_def)
  obtain ctx'' s'' evs2 where
    p: "postOrUpdateComment mem_runtime ctx ?g ?s = (Inr (), ctx'', s'')"
    and t2: "trace s'' = trace s2 @ evs2"
    and a2: "actions evs2 =
             (let fallback =
                    (case ?g None of
                       Inl e \<Rightarrow> []
                     | Inr b0 \<Rightarrow> [CreateComment (owner ctx) (repo ctx) (issueNumber ctx) (b0 @ footer ctx)])
              in case ?g (Some ?c1) of
                   Inl e \<Rightarrow> fallback
                 | Inr b \<Rightarrow>
                     (let updatedBody = (if string_includes b (footer ctx) then b else b @ footer ctx)
                      in UpdateComment (owner ctx) (repo ctx) (comment_id ?c1) updatedBody #
                         (case fst (issues_updateComment mem_runtime (owner ctx) (repo ctx) (comment_id ?c1)
                                      updatedBody (world s2)) of
                            Inl e \<Rightarrow> fallback
                          | Inr u \<Rightarrow> [])))"
    using postOrUpdateComment_after_lock[OF acq] by blast
  have "UpdateComment ''octo'' ''bench'' 1 (''results'' @ footer ctx) \<in> set (actions evs2)"
    unfolding a2 Let_def using n' o by simp
  then have u: "UpdateComment ''octo'' ''bench'' 1 (''results'' @ footer ctx) \<in> set evs2"
    by (rule set_actions_subset)
  have 3: "string_includes (''results'' @ footer ctx) (trim (footer ctx))"
    using lock_create_has_no_footer[OF c, of mem_runtime ?g ?s] acq p t2 u by blast
  then have 4: "matches ctx \<lparr>comment_id = 1, body = ''results'' @ footer ctx, user_type = ''Bot''\<rparr>"
    using lock_create_has_no_footer[OF c, of mem_runtime ?g ?s] by simp
  have A: "\<exists>res ctx' s' evs.
        initiateCommentLock mem_runtime ctx ?g ?s = (res, ctx', s') \<and>
        trace s' = trace ?s @ evs \<and>
        filter is_create evs = [CreateComment ''octo'' ''bench'' 7 ''results'']"
    using run t fc by (intro exI conjI)
  have B: "\<exists>c ctx1 s2 res ctx' s' evs.
        acquireCommentLock mem_runtime ctx ?g ?s1 = (Inr c, ctx1, s2) \<and>
        postOrUpdateComment mem_runtime ctx ?g ?s = (res, ctx', s') \<and>
        trace s' = trace s2 @ evs \<and>
        UpdateComment ''octo'' ''bench'' 1 (''results'' @ footer ctx) \<in> set evs"
    using acq p t2 u by (intro exI conjI)
  show ?thesis using c A n 1 B 3 4 by (intro exI[of _ ctx] conjI)
qed

end
